theory Spec2Isabelle
  imports Main "HOL-Library.Word"
begin

section \<open>Data model of \<open>varstruct_internal.h\<close>\<close>

text \<open>
  \<open>std::size_t\<close> is an unsigned machine integer of some width \<open>w\<close>; it is modelled as
  \<open>'w word\<close>, so that \<open>+\<close>, \<open>-\<close> and \<open>*\<close> wrap around as they do in the source. Positions in
  the two vectors of \<open>VarstructInternal\<close> (member indices, loop counters) are \<open>nat\<close>: they
  are bounded by the number of field declarations of a class.

  Bytes of the backing buffer are \<open>8 word\<close>; the memory is a total map from addresses to
  bytes, and a value of a plain-old-data type is its object representation: the list of
  its \<open>sizeof\<close> bytes, which is what \<open>std::memcpy\<close> moves.
\<close>

type_synonym byte = "8 word"
type_synonym 'w memory = "'w word \<Rightarrow> byte"

text \<open>
  Failures. The two \<open>assert\<close>s of \<open>CreateInternal\<close> are named \<open>LengthMismatch\<close>, the
  \<open>assert\<close> of the pointer method \<open>OutOfRange\<close> (the names of the specification); the
  model is of a build in which assertions are active. \<open>Disabled\<close> stands for a method that
  \<open>std::enable_if\<close> removes from the instantiation: calling it does not compile.
\<close>

datatype error = LengthMismatch | OutOfRange | Disabled

text \<open>The three pointer types a varstruct template is instantiated with.\<close>

datatype 'a PtrType = VoidPtr 'a | ConstVoidPtr 'a | NoPtr

text \<open>The metafunction \<open>IsNoPtr\<close>, and \<open>std::is_const\<close> of the pointee.\<close>

fun IsNoPtr :: "'a PtrType \<Rightarrow> bool" where
  "IsNoPtr NoPtr = True"
| "IsNoPtr _ = False"

fun is_const_pointee :: "'a PtrType \<Rightarrow> bool" where
  "is_const_pointee (ConstVoidPtr _) = True"
| "is_const_pointee _ = False"

text \<open>The \<open>enable_if\<close> conditions of the generated readers and writers.\<close>

definition read_enabled :: "'a PtrType \<Rightarrow> bool" where
  "read_enabled p = (\<not> IsNoPtr p)"

definition write_enabled :: "'a PtrType \<Rightarrow> bool" where
  "write_enabled p = (\<not> IsNoPtr p \<and> \<not> is_const_pointee p)"

text \<open>
  \<open>static_cast<char*>(ptr_)\<close>: the address held by a pointer. The cast does not compile for
  \<open>NoPtr\<close>; the pointer method, its only user, is disabled there before it is reached.
\<close>

fun char_ptr :: "('w::len) word PtrType \<Rightarrow> 'w word" where
  "char_ptr (VoidPtr a) = a"
| "char_ptr (ConstVoidPtr a) = a"
| "char_ptr NoPtr = 0"

text \<open>
  \<open>VarstructMember\<close>: the index of a field in the two vectors. (A name that ends in an
  underscore cannot be written in a term, so the data members \<open>index_\<close>, \<open>arrays_\<close>,
  \<open>offsets_\<close> and \<open>ptr_\<close> of the source lose theirs.)
\<close>

record VarstructMember =
  index :: nat

text \<open>
  \<open>VarstructInternal\<close> with the \<open>ptr_\<close> of \<open>Varstruct\<close> and the \<open>VarstructMember\<close> objects
  that the field macros declare in the derived class, in declaration order.
\<close>

record 's VarstructRep =
  arrays :: "bool list"
  offsets :: "'s list"
  ptr :: "'s PtrType"
  members :: "VarstructMember list"

type_synonym 'w Varstruct = "'w word VarstructRep"

text \<open>
  One use of \<open>VARSTRUCT_SCALAR\<close> or \<open>VARSTRUCT_ARRAY\<close> in a class body: \<open>sizeof(decl_type)\<close>
  and the \<open>array\<close> argument that the macro passes to \<open>VARSTRUCT_DEF_COMMON\<close>. A class body
  (a schema) is the list of its declarations. In C++ \<open>sizeof\<close> is at least 1; where a
  statement needs that, it says so.
\<close>

record 's field_declRep =
  sizeof_decl_type :: 's
  array :: bool

type_synonym 'w field_decl = "'w word field_declRep"

section \<open>Construction\<close>

text \<open>
  The constructor of \<open>VarstructMember\<close>: the index is the current size of \<open>offsets\<close>; the
  size and the array flag are appended.
\<close>

definition VarstructMember_ctor ::
  "('w::len) word \<Rightarrow> bool \<Rightarrow> 'w Varstruct \<Rightarrow> 'w Varstruct" where
  "VarstructMember_ctor sz is_array varstruct =
     varstruct\<lparr> arrays := arrays varstruct @ [is_array],
                offsets := offsets varstruct @ [sz],
                members := members varstruct @ [\<lparr> index = length (offsets varstruct) \<rparr>] \<rparr>"

text \<open>
  The default constructor of the derived class (\<open>CrtpTemplate<PtrType> varstruct;\<close>) runs
  the member initialisers in declaration order on empty vectors. It leaves \<open>ptr_\<close>
  uninitialised, \<open>CreateInternal\<close> assigns it in its next statement; the model starts it
  at \<open>NoPtr\<close>.
\<close>

fun run_initialisers :: "('w::len) field_decl list \<Rightarrow> 'w Varstruct \<Rightarrow> 'w Varstruct" where
  "run_initialisers [] varstruct = varstruct"
| "run_initialisers (d # ds) varstruct =
     run_initialisers ds (VarstructMember_ctor (sizeof_decl_type d) (array d) varstruct)"

definition default_ctor :: "('w::len) field_decl list \<Rightarrow> 'w Varstruct" where
  "default_ctor decls =
     run_initialisers decls \<lparr> arrays = [], offsets = [], ptr = NoPtr, members = [] \<rparr>"

definition num_members :: "('w::len) Varstruct \<Rightarrow> nat" where
  "num_members v = length (offsets v)"

definition size_bytes :: "('w::len) Varstruct \<Rightarrow> 'w word" where
  "size_bytes v = (if offsets v = [] then 0 else last (offsets v))"

text \<open>
  The first loop of \<open>CreateInternal\<close>: every array field's cell is multiplied by the front
  of the deque, which is popped. The state is the varstruct and the deque.
\<close>

function multiply_loop ::
  "nat \<Rightarrow> ('w::len) Varstruct \<Rightarrow> 'w word list \<Rightarrow> error + ('w Varstruct \<times> 'w word list)" where
  "multiply_loop i varstruct array_sizes =
     (if i < num_members varstruct then
        (if arrays varstruct ! i then
           (if array_sizes = [] then Inl LengthMismatch
            else multiply_loop (Suc i)
                   (varstruct\<lparr> offsets :=
                      (offsets varstruct)[i := offsets varstruct ! i * hd array_sizes] \<rparr>)
                   (tl array_sizes))
         else multiply_loop (Suc i) varstruct array_sizes)
      else Inr (varstruct, array_sizes))"
  by pat_completeness auto
termination
  by (relation "measure (\<lambda>(i, v, ls). num_members v - i)") (auto simp: num_members_def)

text \<open>
  The second loop: the running total (\<open>total\<close> in the source, a constant of HOL)
  replaces each cell.
\<close>

function carry_loop :: "nat \<Rightarrow> ('w::len) word \<Rightarrow> 'w Varstruct \<Rightarrow> 'w Varstruct" where
  "carry_loop i total_acc varstruct =
     (if i < num_members varstruct then
        (let total_acc = total_acc + offsets varstruct ! i
         in carry_loop (Suc i) total_acc
              (varstruct\<lparr> offsets := (offsets varstruct)[i := total_acc] \<rparr>))
      else varstruct)"
  by pat_completeness auto
termination
  by (relation "measure (\<lambda>(i, t, v). num_members v - i)") (auto simp: num_members_def)

definition CreateInternal ::
  "('w::len) field_decl list \<Rightarrow> 'w word PtrType \<Rightarrow> 'w word list \<Rightarrow> error + 'w Varstruct" where
  "CreateInternal decls p array_sizes =
     (let varstruct = (default_ctor decls)\<lparr> ptr := p \<rparr>
      in case multiply_loop 0 varstruct array_sizes of
           Inl e \<Rightarrow> Inl e
         | Inr (varstruct, array_sizes) \<Rightarrow>
             if array_sizes \<noteq> [] then Inl LengthMismatch
             else Inr (carry_loop 0 0 (varstruct\<lparr> arrays := [] \<rparr>)))"

text \<open>The three \<open>Create\<close> overloads.\<close>

definition Create_mutable ::
  "('w::len) field_decl list \<Rightarrow> 'w word \<Rightarrow> 'w word list \<Rightarrow> error + 'w Varstruct" where
  "Create_mutable decls p array_sizes = CreateInternal decls (VoidPtr p) array_sizes"

definition Create_const ::
  "('w::len) field_decl list \<Rightarrow> 'w word \<Rightarrow> 'w word list \<Rightarrow> error + 'w Varstruct" where
  "Create_const decls p array_sizes = CreateInternal decls (ConstVoidPtr p) array_sizes"

definition Create_noptr ::
  "('w::len) field_decl list \<Rightarrow> 'w word list \<Rightarrow> error + 'w Varstruct" where
  "Create_noptr decls array_sizes = CreateInternal decls NoPtr array_sizes"

section \<open>Generated members\<close>

text \<open>
  The members that \<open>VARSTRUCT_DEF_COMMON\<close>, \<open>VARSTRUCT_SCALAR_INTERNAL\<close> and
  \<open>VARSTRUCT_ARRAY_INTERNAL\<close> generate for one field. A field is named by its position
  \<open>f\<close> in the class body; \<open>d\<close> is its declaration, which fixes \<open>sizeof(decl_type)\<close> and
  which of the two macros was expanded.
\<close>

definition name_offset :: "('w::len) Varstruct \<Rightarrow> nat \<Rightarrow> 'w word" where
  "name_offset v f =
     (let idx = index (members v ! f)
      in if idx = 0 then 0 else offsets v ! (idx - 1))"

definition scalar_name_size :: "('w::len) field_decl \<Rightarrow> 'w word" where
  "scalar_name_size d = sizeof_decl_type d"

definition array_name_size :: "('w::len) Varstruct \<Rightarrow> nat \<Rightarrow> 'w word" where
  "array_name_size v f =
     (let idx = index (members v ! f)
      in if idx = 0 then offsets v ! idx
         else offsets v ! idx - offsets v ! (idx - 1))"

text \<open>The \<open>name_size\<close> that is in scope in the body of the pointer method.\<close>

definition name_size :: "('w::len) field_decl \<Rightarrow> 'w Varstruct \<Rightarrow> nat \<Rightarrow> 'w word" where
  "name_size d v f = (if array d then array_name_size v f else scalar_name_size d)"

text \<open>
  \<open>__name__void__ptr__<bounds_check>(array_index)\<close>. The comparison \<open>array_index >= 0\<close>
  of the assertion is kept, although no \<open>size_t\<close> falsifies it.
\<close>

definition name_void_ptr ::
  "bool \<Rightarrow> ('w::len) field_decl \<Rightarrow> 'w Varstruct \<Rightarrow> nat \<Rightarrow> 'w word \<Rightarrow> error + 'w word" where
  "name_void_ptr bounds_check d v f array_index =
     (if IsNoPtr (ptr v) then Inl Disabled
      else if bounds_check \<and>
              \<not> (array_index \<ge> 0 \<and>
                 array_index < name_size d v f div sizeof_decl_type d)
           then Inl OutOfRange
      else Inr (char_ptr (ptr v) + name_offset v f + array_index * sizeof_decl_type d))"

text \<open>
  \<open>std::memcpy\<close> out of the memory (\<open>n\<close> bytes from \<open>src\<close> into a temporary) and into
  the memory (the bytes of a value to \<open>dst\<close>). A \<open>new_value\<close> of type \<open>decl_type\<close> is a list
  of \<open>sizeof(decl_type)\<close> bytes, so that \<open>sizeof(new_value)\<close> is its length. Addresses are
  \<open>size_t\<close> words: address arithmetic wraps in the model, where the source's pointer
  arithmetic is undefined.
\<close>

fun memcpy_from :: "('w::len) memory \<Rightarrow> 'w word \<Rightarrow> nat \<Rightarrow> byte list" where
  "memcpy_from mem src 0 = []"
| "memcpy_from mem src (Suc n) = mem src # memcpy_from mem (src + 1) n"

fun memcpy_to :: "('w::len) memory \<Rightarrow> 'w word \<Rightarrow> byte list \<Rightarrow> 'w memory" where
  "memcpy_to mem dst [] = mem"
| "memcpy_to mem dst (b # bs) = memcpy_to (mem(dst := b)) (dst + 1) bs"

text \<open>The scalar reader and writer; both fix \<open>kBoundsCheck\<close> to \<open>false\<close>.\<close>

definition kBoundsCheck :: bool where
  "kBoundsCheck = False"

definition scalar_name ::
  "('w::len) field_decl \<Rightarrow> 'w Varstruct \<Rightarrow> nat \<Rightarrow> 'w memory \<Rightarrow> error + byte list" where
  "scalar_name d v f mem =
     (if \<not> read_enabled (ptr v) then Inl Disabled
      else case name_void_ptr kBoundsCheck d v f 0 of
             Inl e \<Rightarrow> Inl e
           | Inr src \<Rightarrow> Inr (memcpy_from mem src (unat (sizeof_decl_type d))))"

definition scalar_set_name ::
  "('w::len) field_decl \<Rightarrow> 'w Varstruct \<Rightarrow> nat \<Rightarrow> byte list \<Rightarrow> 'w memory \<Rightarrow> error + 'w memory" where
  "scalar_set_name d v f new_value mem =
     (if \<not> write_enabled (ptr v) then Inl Disabled
      else case name_void_ptr kBoundsCheck d v f 0 of
             Inl e \<Rightarrow> Inl e
           | Inr dst \<Rightarrow> Inr (memcpy_to mem dst new_value))"

text \<open>
  The array reader and writer are templates \<open>template <bool bounds_check = true, ...>\<close>:
  a call site either names the template argument or omits it and gets the default.
\<close>

datatype bounds_check_arg = Omitted | Explicit bool

fun bounds_check_of :: "bounds_check_arg \<Rightarrow> bool" where
  "bounds_check_of Omitted = True"
| "bounds_check_of (Explicit b) = b"

definition array_name ::
  "bounds_check_arg \<Rightarrow> ('w::len) field_decl \<Rightarrow> 'w Varstruct \<Rightarrow> nat \<Rightarrow> 'w word \<Rightarrow> 'w memory
     \<Rightarrow> error + byte list" where
  "array_name bc d v f array_index mem =
     (if \<not> read_enabled (ptr v) then Inl Disabled
      else case name_void_ptr (bounds_check_of bc) d v f array_index of
             Inl e \<Rightarrow> Inl e
           | Inr src \<Rightarrow> Inr (memcpy_from mem src (unat (sizeof_decl_type d))))"

definition array_set_name ::
  "bounds_check_arg \<Rightarrow> ('w::len) field_decl \<Rightarrow> 'w Varstruct \<Rightarrow> nat \<Rightarrow> 'w word \<Rightarrow> byte list
     \<Rightarrow> 'w memory \<Rightarrow> error + 'w memory" where
  "array_set_name bc d v f array_index new_value mem =
     (if \<not> write_enabled (ptr v) then Inl Disabled
      else case name_void_ptr (bounds_check_of bc) d v f array_index of
             Inl e \<Rightarrow> Inl e
           | Inr dst \<Rightarrow> Inr (memcpy_to mem dst new_value))"

section \<open>What the two loops compute\<close>

text \<open>
  Functional descriptions used in the proofs; each is proved equal to what the source's
  loops produce. \<open>resolved_sizes\<close> is the content of \<open>offsets_\<close> after the first loop when
  the deque is long enough, \<open>prefix_sums\<close> the content after the second, \<open>member_list\<close>
  the indices the constructors hand out.
\<close>

fun resolved_sizes :: "('w::len) field_decl list \<Rightarrow> 'w word list \<Rightarrow> 'w word list" where
  "resolved_sizes [] ls = []"
| "resolved_sizes (d # ds) ls =
     (if array d then sizeof_decl_type d * hd ls # resolved_sizes ds (tl ls)
      else sizeof_decl_type d # resolved_sizes ds ls)"

fun prefix_sums :: "('w::len) word \<Rightarrow> 'w word list \<Rightarrow> 'w word list" where
  "prefix_sums t [] = []"
| "prefix_sums t (x # xs) = (t + x) # prefix_sums (t + x) xs"

definition num_arrays :: "('w::len) field_decl list \<Rightarrow> nat" where
  "num_arrays decls = length (filter array decls)"

definition member_list :: "nat \<Rightarrow> nat \<Rightarrow> VarstructMember list" where
  "member_list a n = map (\<lambda>k. \<lparr> index = k \<rparr>) [a ..< a + n]"

text \<open>
  The totals of the specification, in exact (unbounded) arithmetic: the sum of the scalar
  fields' element sizes, and the sum over the array fields of element size times length,
  the lengths taken positionally. \<open>exact_sizes\<close> is the exact size of each field.
\<close>

definition scalar_total :: "('w::len) field_decl list \<Rightarrow> nat" where
  "scalar_total decls = sum_list (map (\<lambda>d. unat (sizeof_decl_type d)) (filter (\<lambda>d. \<not> array d) decls))"

definition array_total :: "('w::len) field_decl list \<Rightarrow> 'w word list \<Rightarrow> nat" where
  "array_total decls ls =
     sum_list (map (\<lambda>(d, l). unat (sizeof_decl_type d) * unat l) (zip (filter array decls) ls))"

definition exact_total :: "('w::len) field_decl list \<Rightarrow> 'w word list \<Rightarrow> nat" where
  "exact_total decls ls = scalar_total decls + array_total decls ls"

fun exact_sizes :: "('w::len) field_decl list \<Rightarrow> 'w word list \<Rightarrow> nat list" where
  "exact_sizes [] ls = []"
| "exact_sizes (d # ds) ls =
     (if array d then unat (sizeof_decl_type d) * unat (hd ls) # exact_sizes ds (tl ls)
      else unat (sizeof_decl_type d) # exact_sizes ds ls)"

section \<open>Example classes\<close>

text \<open>
  On a 64-bit \<open>size_t\<close>: a class with a 4-byte scalar, an array of 2-byte elements and an
  8-byte scalar, in this order.
\<close>

definition scenario_schema :: "64 field_decl list" where
  "scenario_schema =
     [\<lparr> sizeof_decl_type = 4, array = False \<rparr>,
      \<lparr> sizeof_decl_type = 2, array = True \<rparr>,
      \<lparr> sizeof_decl_type = 8, array = False \<rparr>]"

text \<open>A varstruct of the example class, without a pointer, with the given offsets.\<close>

definition scenario_view :: "64 word list \<Rightarrow> 64 Varstruct" where
  "scenario_view os = \<lparr> arrays = [], offsets = os, ptr = NoPtr,
           members = [\<lparr> index = 0 \<rparr>, \<lparr> index = 1 \<rparr>, \<lparr> index = 2 \<rparr>] \<rparr>"

text \<open>
  A memory of zero bytes, and a varstruct of the example class with a mutable pointer to
  address \<open>b\<close>.
\<close>

definition zero_memory :: "64 memory" where
  "zero_memory = (\<lambda>a. 0)"

definition scenario_view_at :: "64 word \<Rightarrow> 64 word list \<Rightarrow> 64 Varstruct" where
  "scenario_view_at b os = \<lparr> arrays = [], offsets = os, ptr = VoidPtr b,
           members = [\<lparr> index = 0 \<rparr>, \<lparr> index = 1 \<rparr>, \<lparr> index = 2 \<rparr>] \<rparr>"

section \<open>Accessors by field\<close>

text \<open>
  A call \<open>v.name(...)\<close> or \<open>v.set_name(...)\<close> resolves to the member that the field's macro
  generated: the array member with its index, or the scalar member, which takes none and
  passes the default \<open>array_index = 0\<close> to the pointer method. \<open>field_in_range\<close> says that
  the index is one of the field's elements: below \<open>name_size / sizeof(decl_type)\<close> for an
  array, 0 for a scalar. \<open>element_address\<close> is the pointer expression of the pointer method.
\<close>

definition field_in_range :: "('w::len) field_decl list \<Rightarrow> 'w Varstruct \<Rightarrow> nat \<Rightarrow> 'w word \<Rightarrow> bool" where
  "field_in_range decls v f i =
     (if array (decls ! f)
      then i < name_size (decls ! f) v f div sizeof_decl_type (decls ! f)
      else i = 0)"

definition field_get ::
  "bounds_check_arg \<Rightarrow> ('w::len) field_decl list \<Rightarrow> 'w Varstruct \<Rightarrow> nat \<Rightarrow> 'w word \<Rightarrow> 'w memory
     \<Rightarrow> error + byte list" where
  "field_get bc decls v f i mem =
     (if array (decls ! f) then array_name bc (decls ! f) v f i mem
      else scalar_name (decls ! f) v f mem)"

definition field_set ::
  "bounds_check_arg \<Rightarrow> ('w::len) field_decl list \<Rightarrow> 'w Varstruct \<Rightarrow> nat \<Rightarrow> 'w word \<Rightarrow> byte list
     \<Rightarrow> 'w memory \<Rightarrow> error + 'w memory" where
  "field_set bc decls v f i new_value mem =
     (if array (decls ! f) then array_set_name bc (decls ! f) v f i new_value mem
      else scalar_set_name (decls ! f) v f new_value mem)"

definition element_address :: "('w::len) field_decl list \<Rightarrow> 'w Varstruct \<Rightarrow> nat \<Rightarrow> 'w word \<Rightarrow> 'w word" where
  "element_address decls v f i =
     char_ptr (ptr v) + name_offset v f + i * sizeof_decl_type (decls ! f)"

section \<open>The loops, characterised\<close>

declare multiply_loop.simps [simp del] carry_loop.simps [simp del]

lemma run_initialisers_eq:
  "run_initialisers ds v =
     v\<lparr> arrays := arrays v @ map array ds,
        offsets := offsets v @ map sizeof_decl_type ds,
        members := members v @ member_list (length (offsets v)) (length ds) \<rparr>"
proof (induction ds arbitrary: v)
  case Nil
  show ?case by (simp add: member_list_def)
next
  case (Cons d ds)
  have "[length (offsets v) ..< length (offsets v) + Suc (length ds)] =
        length (offsets v) # [Suc (length (offsets v)) ..< Suc (length (offsets v)) + length ds]"
    by (simp add: upt_rec)
  then show ?case
    by (simp add: Cons.IH VarstructMember_ctor_def member_list_def)
qed

lemma default_ctor_eq:
  "default_ctor decls =
     \<lparr> arrays = map array decls, offsets = map sizeof_decl_type decls, ptr = NoPtr,
       members = member_list 0 (length decls) \<rparr>"
  by (simp add: default_ctor_def run_initialisers_eq)

lemma multiply_loop_eq:
  "arrays v = map array decls \<Longrightarrow> length (offsets v) = length decls \<Longrightarrow> i \<le> length decls \<Longrightarrow>
   drop i (offsets v) = map sizeof_decl_type (drop i decls) \<Longrightarrow>
   multiply_loop i v ls =
     (if length ls < num_arrays (drop i decls) then Inl LengthMismatch
      else Inr (v\<lparr> offsets := take i (offsets v) @ resolved_sizes (drop i decls) ls \<rparr>,
                drop (num_arrays (drop i decls)) ls))"
proof (induction "length decls - i" arbitrary: i v ls)
  case 0
  then have "i = length decls" by simp
  with 0 show ?case
    by (subst multiply_loop.simps) (simp add: num_members_def num_arrays_def)
next
  case (Suc n)
  then have i: "i < length decls" by simp
  then have dd: "drop i decls = decls ! i # drop (Suc i) decls"
    by (simp add: Cons_nth_drop_Suc)
  from i Suc.prems have od: "drop i (offsets v) = offsets v ! i # drop (Suc i) (offsets v)"
    by (simp add: Cons_nth_drop_Suc)
  with Suc.prems(4) dd have oi: "offsets v ! i = sizeof_decl_type (decls ! i)"
    and ods: "drop (Suc i) (offsets v) = map sizeof_decl_type (drop (Suc i) decls)"
    by simp_all
  have ai: "arrays v ! i = array (decls ! i)" using i Suc.prems(1) by simp
  have n: "n = length decls - Suc i" using Suc.hyps(2) by simp
  show ?case
  proof (cases "array (decls ! i)")
    case False
    have "multiply_loop i v ls = multiply_loop (Suc i) v ls"
      using i Suc.prems(2) ai False by (subst multiply_loop.simps) (simp add: num_members_def)
    also have "\<dots> = (if length ls < num_arrays (drop (Suc i) decls) then Inl LengthMismatch
      else Inr (v\<lparr> offsets := take (Suc i) (offsets v) @ resolved_sizes (drop (Suc i) decls) ls \<rparr>,
                drop (num_arrays (drop (Suc i) decls)) ls))"
      using Suc.hyps(1)[OF n Suc.prems(1) Suc.prems(2) _ ods] i by simp
    finally show ?thesis
      using False i Suc.prems(2) oi by (simp add: dd num_arrays_def take_Suc_conv_app_nth)
  next
    case True
    show ?thesis
    proof (cases ls)
      case Nil
      then show ?thesis
        using i Suc.prems(2) ai True
        by (subst multiply_loop.simps) (simp add: num_members_def dd num_arrays_def)
    next
      case (Cons l ls')
      let ?v = "v\<lparr> offsets := (offsets v)[i := offsets v ! i * l] \<rparr>"
      have "multiply_loop i v ls = multiply_loop (Suc i) ?v ls'"
        using i Suc.prems(2) ai True Cons
        by (subst multiply_loop.simps) (simp add: num_members_def)
      also have "\<dots> = (if length ls' < num_arrays (drop (Suc i) decls) then Inl LengthMismatch
        else Inr (?v\<lparr> offsets := take (Suc i) (offsets ?v) @ resolved_sizes (drop (Suc i) decls) ls' \<rparr>,
                drop (num_arrays (drop (Suc i) decls)) ls'))"
        using Suc.hyps(1)[OF n, of ?v ls'] Suc.prems(1) Suc.prems(2) i ods by simp
      finally show ?thesis
        using True i Suc.prems(2) oi Cons
        by (simp add: dd num_arrays_def take_Suc_conv_app_nth)
    qed
  qed
qed

lemma carry_loop_eq:
  "i \<le> length (offsets v) \<Longrightarrow>
   carry_loop i t v = v\<lparr> offsets := take i (offsets v) @ prefix_sums t (drop i (offsets v)) \<rparr>"
proof (induction "length (offsets v) - i" arbitrary: i t v)
  case 0
  then show ?case by (subst carry_loop.simps) (simp add: num_members_def)
next
  case (Suc n)
  then have i: "i < length (offsets v)" by simp
  let ?t = "t + offsets v ! i"
  let ?v = "v\<lparr> offsets := (offsets v)[i := ?t] \<rparr>"
  have n: "n = length (offsets ?v) - Suc i" using Suc.hyps(2) by simp
  have "carry_loop i t v = carry_loop (Suc i) ?t ?v"
    using i by (subst carry_loop.simps) (simp add: num_members_def Let_def)
  also have "\<dots> = ?v\<lparr> offsets := take (Suc i) (offsets ?v) @ prefix_sums ?t (drop (Suc i) (offsets ?v)) \<rparr>"
    using Suc.hyps(1)[OF n] i by simp
  finally show ?case
    using i by (simp add: take_Suc_conv_app_nth Cons_nth_drop_Suc[symmetric])
qed

lemma CreateInternal_eq:
  "CreateInternal decls p ls =
     (if length ls = num_arrays decls
      then Inr \<lparr> arrays = [], offsets = prefix_sums 0 (resolved_sizes decls ls), ptr = p,
                 members = member_list 0 (length decls) \<rparr>
      else Inl LengthMismatch)"
proof -
  let ?v = "(default_ctor decls)\<lparr> ptr := p \<rparr>"
  have m: "multiply_loop 0 ?v ls =
     (if length ls < num_arrays decls then Inl LengthMismatch
      else Inr (?v\<lparr> offsets := resolved_sizes decls ls \<rparr>, drop (num_arrays decls) ls))"
    using multiply_loop_eq[of ?v decls 0 ls] by (simp add: default_ctor_eq)
  show ?thesis
    unfolding CreateInternal_def Let_def m
    by (auto simp: carry_loop_eq default_ctor_eq)
qed

lemma length_resolved_sizes [simp]: "length (resolved_sizes decls ls) = length decls"
  by (induction decls arbitrary: ls) simp_all

lemma length_exact_sizes [simp]: "length (exact_sizes decls ls) = length decls"
  by (induction decls arbitrary: ls) simp_all

lemma length_prefix_sums [simp]: "length (prefix_sums t xs) = length xs"
  by (induction xs arbitrary: t) simp_all

lemma prefix_sums_nth:
  "i < length xs \<Longrightarrow> prefix_sums t xs ! i = t + sum_list (take (Suc i) xs)"
proof (induction xs arbitrary: t i)
  case Nil
  then show ?case by simp
next
  case (Cons x xs)
  then show ?case by (cases i) (simp_all add: add.assoc)
qed

lemma prefix_sums_Nil [simp]: "(prefix_sums t xs = []) = (xs = [])"
  by (cases xs) simp_all

lemma prefix_sums_last:
  "xs \<noteq> [] \<Longrightarrow> last (prefix_sums t xs) = t + sum_list xs"
  by (induction xs arbitrary: t) (simp_all add: add.assoc)

lemma resolved_sizes_Nil [simp]: "(resolved_sizes decls ls = []) = (decls = [])"
  by (cases decls) simp_all

lemma resolved_sizes_exact:
  "resolved_sizes decls ls = map of_nat (exact_sizes decls ls)"
  by (induction decls arbitrary: ls) simp_all

lemma sum_list_of_nat: "sum_list (map of_nat xs) = (of_nat (sum_list xs) :: ('w::len) word)"
  by (induction xs) simp_all

lemma sum_exact_sizes:
  "length ls = num_arrays decls \<Longrightarrow> sum_list (exact_sizes decls ls) = exact_total decls ls"
proof (induction decls arbitrary: ls)
  case Nil
  then show ?case by (simp add: exact_total_def scalar_total_def array_total_def)
next
  case (Cons d ds)
  show ?case
  proof (cases "array d")
    case True
    with Cons.prems obtain l ls' where ls: "ls = l # ls'" and "length ls' = num_arrays ds"
      by (cases ls) (simp_all add: num_arrays_def)
    with Cons.IH[of ls'] True show ?thesis
      by (simp add: exact_total_def scalar_total_def array_total_def)
  next
    case False
    with Cons.prems have "length ls = num_arrays ds" by (simp add: num_arrays_def)
    with Cons.IH[of ls] False show ?thesis
      by (simp add: exact_total_def scalar_total_def array_total_def)
  qed
qed

lemma member_list_nth: "f < n \<Longrightarrow> index (member_list 0 n ! f) = f"
  by (simp add: member_list_def)

text \<open>The layout of a created varstruct, read through the generated members.\<close>

lemma created_name_offset:
  assumes "CreateInternal decls p ls = Inr v" "f < length decls"
  shows "name_offset v f = sum_list (take f (resolved_sizes decls ls))"
proof -
  from assms(1) have v: "v = \<lparr> arrays = [], offsets = prefix_sums 0 (resolved_sizes decls ls), ptr = p,
                 members = member_list 0 (length decls) \<rparr>"
    by (simp add: CreateInternal_eq split: if_splits)
  show ?thesis
  proof (cases f)
    case 0
    then show ?thesis using assms(2) by (simp add: v name_offset_def member_list_nth)
  next
    case (Suc k)
    then show ?thesis using assms(2)
      by (simp add: v name_offset_def member_list_nth prefix_sums_nth)
  qed
qed

lemma created_array_name_size:
  assumes "CreateInternal decls p ls = Inr v" "f < length decls"
  shows "array_name_size v f = resolved_sizes decls ls ! f"
proof -
  from assms(1) have v: "v = \<lparr> arrays = [], offsets = prefix_sums 0 (resolved_sizes decls ls), ptr = p,
                 members = member_list 0 (length decls) \<rparr>"
    by (simp add: CreateInternal_eq split: if_splits)
  show ?thesis
  proof (cases f)
    case 0
    then show ?thesis using assms(2)
      by (cases "resolved_sizes decls ls")
         (simp_all add: v array_name_size_def member_list_nth prefix_sums_nth)
  next
    case (Suc k)
    then show ?thesis using assms(2)
      by (simp add: v array_name_size_def member_list_nth prefix_sums_nth take_Suc_conv_app_nth)
  qed
qed

lemma resolved_sizes_scalar:
  "f < length decls \<Longrightarrow> \<not> array (decls ! f) \<Longrightarrow>
   resolved_sizes decls ls ! f = sizeof_decl_type (decls ! f)"
proof (induction decls arbitrary: ls f)
  case Nil
  then show ?case by simp
next
  case (Cons d ds)
  then show ?case by (cases f) simp_all
qed

lemma created_name_size:
  assumes "CreateInternal decls p ls = Inr v" "f < length decls"
  shows "name_size (decls ! f) v f = resolved_sizes decls ls ! f"
  using assms
  by (simp add: name_size_def created_array_name_size resolved_sizes_scalar scalar_name_size_def)

lemma created_size_bytes:
  assumes "CreateInternal decls p ls = Inr v"
  shows "size_bytes v = sum_list (resolved_sizes decls ls)"
  using assms
  by (auto simp: CreateInternal_eq size_bytes_def prefix_sums_last split: if_splits)

lemma created_num_members:
  assumes "CreateInternal decls p ls = Inr v"
  shows "num_members v = length decls"
  using assms
  by (auto simp: CreateInternal_eq num_members_def split: if_splits)

lemma created_ptr:
  assumes "CreateInternal decls p ls = Inr v"
  shows "ptr v = p"
  using assms
  by (auto simp: CreateInternal_eq split: if_splits)

section \<open>Creation: length mismatch and total size\<close>

text \<open>
  Claim C3. \<open>CreateInternal\<close> fails, and then with \<open>LengthMismatch\<close>, exactly when the
  number of supplied lengths differs from the number of array fields of the class. The
  first assertion (deque empty at an array field) fires exactly when there are too few
  lengths; the first loop ends with lengths left over, so that the second assertion
  fires, exactly when there are too many. Replacing the supplied values by any others
  (\<open>map g\<close>) changes nothing about the failure.
\<close>

theorem C3_length_mismatch_iff:
  "(CreateInternal decls p ls = Inl LengthMismatch) = (length ls \<noteq> num_arrays decls)
   \<and> isl (CreateInternal decls p ls) = (length ls \<noteq> num_arrays decls)
   \<and> (multiply_loop 0 ((default_ctor decls)\<lparr> ptr := p \<rparr>) ls = Inl LengthMismatch)
       = (length ls < num_arrays decls)
   \<and> (case multiply_loop 0 ((default_ctor decls)\<lparr> ptr := p \<rparr>) ls of
         Inl e \<Rightarrow> False | Inr (v, rest) \<Rightarrow> rest \<noteq> [])
       = (num_arrays decls < length ls)
   \<and> (CreateInternal decls p (map g ls) = Inl LengthMismatch)
       = (CreateInternal decls p ls = Inl LengthMismatch)"
proof -
  let ?v = "(default_ctor decls)\<lparr> ptr := p \<rparr>"
  have m: "multiply_loop 0 ?v ls =
     (if length ls < num_arrays decls then Inl LengthMismatch
      else Inr (?v\<lparr> offsets := resolved_sizes decls ls \<rparr>, drop (num_arrays decls) ls))"
    using multiply_loop_eq[of ?v decls 0 ls] by (simp add: default_ctor_eq)
  show ?thesis
    unfolding m by (simp add: CreateInternal_eq)
qed

text \<open>
  Claim C1, as the code has it. With as many lengths as array fields, \<open>CreateInternal\<close>
  succeeds, and \<open>size_bytes\<close> is the sum of the scalar sizes plus the sum of element size
  times length over the array fields, reduced modulo \<open>2 ^ w\<close>: the products and the
  running total are \<open>size_t\<close> arithmetic. The total is the exact sum whenever that sum is
  below \<open>2 ^ w\<close>. A class with no fields has size 0.
\<close>

theorem C1_total_size_mod:
  fixes decls :: "('w::len) field_decl list"
  assumes "length ls = num_arrays decls"
  shows "(\<exists>v. CreateInternal decls p ls = Inr v
           \<and> unat (size_bytes v) =
               (scalar_total decls + array_total decls ls) mod 2 ^ LENGTH('w)
           \<and> (scalar_total decls + array_total decls ls < 2 ^ LENGTH('w)
                \<longrightarrow> unat (size_bytes v) = scalar_total decls + array_total decls ls))
         \<and> (\<exists>v0. CreateInternal [] p [] = Inr v0 \<and> size_bytes v0 = 0)"
proof -
  from assms obtain v where v: "CreateInternal decls p ls = Inr v"
    by (simp add: CreateInternal_eq)
  have "size_bytes v = of_nat (sum_list (exact_sizes decls ls))"
    by (simp add: created_size_bytes[OF v] resolved_sizes_exact sum_list_of_nat)
  then have "unat (size_bytes v) = exact_total decls ls mod 2 ^ LENGTH('w)"
    by (simp add: sum_exact_sizes[OF assms] unat_of_nat)
  moreover have "\<exists>v0. CreateInternal [] p [] = Inr v0 \<and> size_bytes v0 = 0"
    by (simp add: CreateInternal_eq num_arrays_def size_bytes_def)
  ultimately show ?thesis using v by (auto simp: exact_total_def)
qed

text \<open>The scenario of the specification: lengths \<open>[3]\<close> give a total of 18 bytes.\<close>

theorem C1_total_size_mod_witness:
  "length [3 :: 64 word] = num_arrays scenario_schema \<and>
   (\<exists>v. CreateInternal scenario_schema NoPtr [3] = Inr v \<and> unat (size_bytes v) = 18)"
  using C1_total_size_mod[of "[3]" scenario_schema NoPtr]
  by (simp add: scenario_schema_def num_arrays_def scalar_total_def array_total_def)

text \<open>
  The claim as written, with the exact sum, fails where the sum leaves \<open>size_t\<close>: an array
  of \<open>2 ^ 63\<close> two-byte elements takes \<open>2 ^ 64\<close> bytes, the product wraps to 0, and the
  total is 12 where the exact sum is \<open>2 ^ 64 + 12\<close>.
\<close>

theorem C1_exact_sum_counterexample:
  "length [2 ^ 63 :: 64 word] = num_arrays scenario_schema \<and>
   CreateInternal scenario_schema NoPtr [2 ^ 63] =
     Inr \<lparr> arrays = [], offsets = [4, 4, 12], ptr = NoPtr,
           members = [\<lparr> index = 0 \<rparr>, \<lparr> index = 1 \<rparr>, \<lparr> index = 2 \<rparr>] \<rparr> \<and>
   unat (size_bytes \<lparr> arrays = [], offsets = [4, 4, 12 :: 64 word], ptr = NoPtr,
           members = [\<lparr> index = 0 \<rparr>, \<lparr> index = 1 \<rparr>, \<lparr> index = 2 \<rparr>] \<rparr>) = 12 \<and>
   scalar_total scenario_schema + array_total scenario_schema [2 ^ 63] = 2 ^ 64 + 12"
  by (simp add: CreateInternal_eq scenario_schema_def num_arrays_def scalar_total_def
        array_total_def member_list_def size_bytes_def upt_rec)

section \<open>Offsets of a created varstruct\<close>

lemma created_offsets_nth:
  assumes "CreateInternal decls p ls = Inr v" "k < length decls"
  shows "offsets v ! k = sum_list (take (Suc k) (resolved_sizes decls ls))"
  using assms by (auto simp: CreateInternal_eq prefix_sums_nth split: if_splits)

lemma created_length_offsets:
  assumes "CreateInternal decls p ls = Inr v"
  shows "length (offsets v) = length decls"
  using assms by (auto simp: CreateInternal_eq split: if_splits)

lemma created_lengths:
  assumes "CreateInternal decls p ls = Inr v"
  shows "length ls = num_arrays decls"
  using assms by (auto simp: CreateInternal_eq split: if_splits)

lemma sum_take_resolved:
  "sum_list (take k (resolved_sizes decls ls)) = of_nat (sum_list (take k (exact_sizes decls ls)))"
  by (simp add: resolved_sizes_exact take_map sum_list_of_nat)

lemma sum_list_take_le: "sum_list (take k xs) \<le> sum_list (xs :: nat list)"
proof -
  have "sum_list xs = sum_list (take k xs) + sum_list (drop k xs)"
    by (metis append_take_drop_id sum_list_append)
  then show ?thesis by simp
qed

lemma unat_sum_take_resolved:
  fixes decls :: "('w::len) field_decl list"
  assumes "sum_list (exact_sizes decls ls) < 2 ^ LENGTH('w)"
  shows "unat (sum_list (take k (resolved_sizes decls ls))) = sum_list (take k (exact_sizes decls ls))"
proof -
  have "sum_list (take k (exact_sizes decls ls)) < 2 ^ LENGTH('w)"
    using sum_list_take_le[of k "exact_sizes decls ls"] assms by simp
  then show ?thesis by (simp add: sum_take_resolved unat_of_nat)
qed

lemma unat_resolved_nth:
  fixes decls :: "('w::len) field_decl list"
  assumes "sum_list (exact_sizes decls ls) < 2 ^ LENGTH('w)" "i < length decls"
  shows "unat (resolved_sizes decls ls ! i) = exact_sizes decls ls ! i"
proof -
  have "exact_sizes decls ls ! i \<le> sum_list (exact_sizes decls ls)"
    using assms(2) by (simp add: member_le_sum_list)
  with assms show ?thesis by (simp add: resolved_sizes_exact unat_of_nat)
qed

text \<open>
  Claim C10. \<open>CreateInternal\<close> has no overflow check: whenever the number of lengths
  matches, it succeeds, whatever the sizes. After the first loop each cell holds the exact
  size of its field modulo \<open>2 ^ w\<close>; after the second, each offset is the exact prefix
  sum modulo \<open>2 ^ w\<close>, and so is \<open>size_bytes\<close>. The instance below is a layout whose
  exact total exceeds \<open>2 ^ 64 - 1\<close> and that is returned wrapped.
\<close>

theorem C10_wraps_without_detection:
  fixes decls :: "('w::len) field_decl list"
  assumes "length ls = num_arrays decls"
  shows "\<exists>v1 v. multiply_loop 0 ((default_ctor decls)\<lparr> ptr := p \<rparr>) ls = Inr (v1, [])
           \<and> map unat (offsets v1) = map (\<lambda>e. e mod 2 ^ LENGTH('w)) (exact_sizes decls ls)
           \<and> CreateInternal decls p ls = Inr v
           \<and> map unat (offsets v) =
               map (\<lambda>k. sum_list (take (Suc k) (exact_sizes decls ls)) mod 2 ^ LENGTH('w))
                 [0 ..< length decls]
           \<and> unat (size_bytes v) = sum_list (exact_sizes decls ls) mod 2 ^ LENGTH('w)"
proof -
  let ?v = "(default_ctor decls)\<lparr> ptr := p \<rparr>"
  have m: "multiply_loop 0 ?v ls = Inr (?v\<lparr> offsets := resolved_sizes decls ls \<rparr>, [])"
    using multiply_loop_eq[of ?v decls 0 ls] assms by (simp add: default_ctor_eq)
  have r: "map unat (resolved_sizes decls ls) = map (\<lambda>e. e mod 2 ^ LENGTH('w)) (exact_sizes decls ls)"
    by (simp add: resolved_sizes_exact unat_of_nat)
  from assms obtain v where v: "CreateInternal decls p ls = Inr v"
    by (simp add: CreateInternal_eq)
  have o: "map unat (offsets v) =
               map (\<lambda>k. sum_list (take (Suc k) (exact_sizes decls ls)) mod 2 ^ LENGTH('w))
                 [0 ..< length decls]"
    by (rule nth_equalityI)
       (simp_all add: created_length_offsets[OF v] created_offsets_nth[OF v] sum_take_resolved
          unat_of_nat)
  have s: "unat (size_bytes v) = sum_list (exact_sizes decls ls) mod 2 ^ LENGTH('w)"
    by (simp add: created_size_bytes[OF v] resolved_sizes_exact sum_list_of_nat unat_of_nat)
  from m r v o s show ?thesis by simp
qed

theorem C10_wraps_without_detection_witness:
  "length [2 ^ 63 :: 64 word] = num_arrays scenario_schema \<and>
   2 ^ 64 - 1 < sum_list (exact_sizes scenario_schema [2 ^ 63]) \<and>
   (\<exists>v. CreateInternal scenario_schema NoPtr [2 ^ 63] = Inr v \<and>
        map unat (offsets v) = [4, 4, 12] \<and> unat (size_bytes v) = 12)"
  using C10_wraps_without_detection[of "[2 ^ 63]" scenario_schema NoPtr]
  by (auto simp: scenario_schema_def num_arrays_def upt_rec)

section \<open>Contiguity\<close>

text \<open>
  Claim C2, as the code has it. In a created varstruct the first field starts at 0, and
  every later field starts at the start of its predecessor plus the predecessor's size,
  where the sum is \<open>size_t\<close> arithmetic (modulo \<open>2 ^ w\<close>). When the exact total size is below
  \<open>2 ^ w\<close> the sum does not wrap: the equation holds between the numbers, every field ends
  at or before \<open>size_bytes\<close> and the last one ends at it, so that the fields occupy
  contiguous, non-overlapping byte ranges in declaration order.
\<close>

theorem C2_contiguous_mod:
  fixes decls :: "('w::len) field_decl list"
  assumes "CreateInternal decls p ls = Inr v"
  shows "(decls \<noteq> [] \<longrightarrow> name_offset v 0 = 0)
       \<and> (\<forall>i. 0 < i \<and> i < length decls \<longrightarrow>
              name_offset v i = name_offset v (i - 1) + name_size (decls ! (i - 1)) v (i - 1))
       \<and> (scalar_total decls + array_total decls ls < 2 ^ LENGTH('w) \<longrightarrow>
            (\<forall>i. 0 < i \<and> i < length decls \<longrightarrow>
               unat (name_offset v i) =
                 unat (name_offset v (i - 1)) + unat (name_size (decls ! (i - 1)) v (i - 1)))
          \<and> (\<forall>i. i < length decls \<longrightarrow>
               unat (name_offset v i) + unat (name_size (decls ! i) v i) \<le> unat (size_bytes v))
          \<and> (decls \<noteq> [] \<longrightarrow>
               unat (name_offset v (length decls - 1))
                 + unat (name_size (decls ! (length decls - 1)) v (length decls - 1))
               = unat (size_bytes v)))"
proof -
  let ?R = "resolved_sizes decls ls" and ?E = "exact_sizes decls ls"
  note len = created_lengths[OF assms]
  have step: "sum_list (take (Suc k) xs) = sum_list (take k xs) + xs ! k"
    if "k < length xs" for k and xs :: "'a::monoid_add list"
    using that by (simp add: take_Suc_conv_app_nth)
  have a: "decls \<noteq> [] \<longrightarrow> name_offset v 0 = 0"
    by (simp add: created_name_offset[OF assms])
  have b: "name_offset v i = name_offset v (i - 1) + name_size (decls ! (i - 1)) v (i - 1)"
    if "0 < i" "i < length decls" for i
  proof -
    from that obtain k where k: "i = Suc k" "k < length decls" by (cases i) simp_all
    show ?thesis
      using k that by (simp add: created_name_offset[OF assms] created_name_size[OF assms] step)
  qed
  have offs: "unat (name_offset v j) = sum_list (take j ?E)"
    if "j < length decls" and fit: "sum_list ?E < 2 ^ LENGTH('w)" for j
    using that by (simp add: created_name_offset[OF assms] unat_sum_take_resolved[OF fit])
  have sz: "unat (name_size (decls ! j) v j) = ?E ! j"
    if "j < length decls" and fit: "sum_list ?E < 2 ^ LENGTH('w)" for j
    using that by (simp add: created_name_size[OF assms] unat_resolved_nth[OF fit])
  have tot: "unat (size_bytes v) = sum_list ?E" if fit: "sum_list ?E < 2 ^ LENGTH('w)"
    using unat_sum_take_resolved[OF fit, of "length decls"]
    by (simp add: created_size_bytes[OF assms])
  have c: "unat (name_offset v i) = unat (name_offset v (i - 1)) + unat (name_size (decls ! (i - 1)) v (i - 1))"
    if "0 < i" "i < length decls" and fit: "sum_list ?E < 2 ^ LENGTH('w)" for i
  proof -
    from that obtain k where k: "i = Suc k" "k < length decls" by (cases i) simp_all
    show ?thesis
      using k that step[of k ?E] by (simp add: offs sz)
  qed
  have d: "unat (name_offset v i) + unat (name_size (decls ! i) v i) \<le> unat (size_bytes v)"
    if "i < length decls" and fit: "sum_list ?E < 2 ^ LENGTH('w)" for i
  proof -
    have "sum_list (take i ?E) + ?E ! i = sum_list (take (Suc i) ?E)"
      using that step[of i ?E] by simp
    also have "\<dots> \<le> sum_list ?E" by (rule sum_list_take_le)
    finally show ?thesis
      using that by (simp add: offs sz tot)
  qed
  have e: "unat (name_offset v (length decls - 1))
                 + unat (name_size (decls ! (length decls - 1)) v (length decls - 1))
               = unat (size_bytes v)"
    if "decls \<noteq> []" and fit: "sum_list ?E < 2 ^ LENGTH('w)"
  proof -
    from that obtain k where k: "length decls = Suc k" by (cases decls) simp_all
    have "sum_list (take k ?E) + ?E ! k = sum_list (take (Suc k) ?E)"
      using k step[of k ?E] by simp
    also have "\<dots> = sum_list ?E" using k by simp
    finally show ?thesis
      using k fit by (simp add: offs sz tot)
  qed
  have fitI: "scalar_total decls + array_total decls ls < 2 ^ LENGTH('w) \<Longrightarrow> sum_list ?E < 2 ^ LENGTH('w)"
    by (simp add: sum_exact_sizes[OF len] exact_total_def)
  show ?thesis
    using a b c d e fitI by blast
qed

text \<open>The scenario of the specification: starts 0, 4 and 10, total 18.\<close>

theorem C2_contiguous_mod_witness:
  "CreateInternal scenario_schema NoPtr [3] = Inr (scenario_view [4, 10, 18]) \<and>
   scalar_total scenario_schema + array_total scenario_schema [3] < 2 ^ 64 \<and>
   name_offset (scenario_view [4, 10, 18]) 0 = 0 \<and>
   name_offset (scenario_view [4, 10, 18]) 1 =
     name_offset (scenario_view [4, 10, 18]) 0
       + name_size (scenario_schema ! 0) (scenario_view [4, 10, 18]) 0 \<and>
   unat (name_offset (scenario_view [4, 10, 18]) 2) =
     unat (name_offset (scenario_view [4, 10, 18]) 1)
       + unat (name_size (scenario_schema ! 1) (scenario_view [4, 10, 18]) 1) \<and>
   unat (name_offset (scenario_view [4, 10, 18]) 2)
       + unat (name_size (scenario_schema ! 2) (scenario_view [4, 10, 18]) 2)
     = unat (size_bytes (scenario_view [4, 10, 18]))"
proof -
  have c: "CreateInternal scenario_schema NoPtr [3] = Inr (scenario_view [4, 10, 18])"
    by (simp add: CreateInternal_eq scenario_schema_def scenario_view_def num_arrays_def
          member_list_def upt_rec)
  have f: "scalar_total scenario_schema + array_total scenario_schema [3] < 2 ^ LENGTH(64)"
    by (simp add: scenario_schema_def scalar_total_def array_total_def)
  have n: "scenario_schema \<noteq> []" "length scenario_schema = 3"
    by (simp_all add: scenario_schema_def)
  note t = C2_contiguous_mod[OF c]
  note t0 = t[THEN conjunct1, rule_format]
  note t1 = t[THEN conjunct2, THEN conjunct1, rule_format]
  note t2 = t[THEN conjunct2, THEN conjunct2, rule_format, OF f]
  have "name_offset (scenario_view [4, 10, 18]) 0 = 0"
    using t0 n(1) by simp
  moreover have "name_offset (scenario_view [4, 10, 18]) 1 =
     name_offset (scenario_view [4, 10, 18]) 0
       + name_size (scenario_schema ! 0) (scenario_view [4, 10, 18]) 0"
    using t1[of 1] n(2) by simp
  moreover have "unat (name_offset (scenario_view [4, 10, 18]) 2) =
     unat (name_offset (scenario_view [4, 10, 18]) 1)
       + unat (name_size (scenario_schema ! 1) (scenario_view [4, 10, 18]) 1)"
    using t2[THEN conjunct1, rule_format, of 2] n(2) by simp
  moreover have "unat (name_offset (scenario_view [4, 10, 18]) 2)
       + unat (name_size (scenario_schema ! 2) (scenario_view [4, 10, 18]) 2)
     = unat (size_bytes (scenario_view [4, 10, 18]))"
    using t2[THEN conjunct2, THEN conjunct2, rule_format] n by simp
  ultimately show ?thesis using c f by simp
qed

text \<open>
  Read between the numbers, without the proviso, the equation fails: with \<open>2 ^ 63 - 1\<close>
  two-byte elements the third field starts at 2, inside the first field (bytes 0 to 3),
  while the second field starts at 4 and has size \<open>2 ^ 64 - 2\<close>.
\<close>

theorem C2_exact_counterexample:
  "CreateInternal scenario_schema NoPtr [2 ^ 63 - 1] = Inr (scenario_view [4, 2, 10]) \<and>
   unat (name_offset (scenario_view [4, 2, 10]) 2) = 2 \<and>
   unat (name_offset (scenario_view [4, 2, 10]) 1)
     + unat (name_size (scenario_schema ! 1) (scenario_view [4, 2, 10]) 1) = 2 ^ 64 + 2 \<and>
   unat (name_offset (scenario_view [4, 2, 10]) 0) = 0 \<and>
   unat (name_size (scenario_schema ! 0) (scenario_view [4, 2, 10]) 0) = 4"
  by (simp add: CreateInternal_eq scenario_schema_def scenario_view_def num_arrays_def
        member_list_def upt_rec name_offset_def name_size_def scalar_name_size_def
        array_name_size_def)

section \<open>The offsets vector\<close>

text \<open>
  Claim C7, as the code has it. In the offsets vector of a created varstruct the first
  cell is the resolved size of the first field, and each later cell minus its predecessor
  is the resolved size of its field (element size, times the length for an array), in
  \<open>size_t\<close> arithmetic; two neighbouring cells are equal exactly when that size is 0. When
  the exact total size is below \<open>2 ^ w\<close>, the offsets are non-decreasing, the difference
  of the numbers is the exact size of the field, and an offset is strictly greater than
  its predecessor exactly when the field's size is not 0.
\<close>

theorem C7_offsets_differences:
  fixes decls :: "('w::len) field_decl list"
  assumes "CreateInternal decls p ls = Inr v"
  shows "(decls \<noteq> [] \<longrightarrow> offsets v ! 0 = resolved_sizes decls ls ! 0)
       \<and> (\<forall>i. 0 < i \<and> i < length decls \<longrightarrow>
            offsets v ! i - offsets v ! (i - 1) = resolved_sizes decls ls ! i
          \<and> (offsets v ! i = offsets v ! (i - 1)) = (resolved_sizes decls ls ! i = 0))
       \<and> (scalar_total decls + array_total decls ls < 2 ^ LENGTH('w) \<longrightarrow>
            (\<forall>i. 0 < i \<and> i < length decls \<longrightarrow>
               offsets v ! (i - 1) \<le> offsets v ! i
             \<and> unat (offsets v ! i) - unat (offsets v ! (i - 1)) = exact_sizes decls ls ! i
             \<and> (offsets v ! (i - 1) < offsets v ! i) = (exact_sizes decls ls ! i \<noteq> 0)))"
proof -
  let ?R = "resolved_sizes decls ls" and ?E = "exact_sizes decls ls"
  note len = created_lengths[OF assms]
  have z: "decls \<noteq> [] \<longrightarrow> offsets v ! 0 = ?R ! 0"
    by (cases "?R") (simp_all add: created_offsets_nth[OF assms])
  have a: "offsets v ! i - offsets v ! (i - 1) = ?R ! i"
    if "0 < i" "i < length decls" for i
  proof -
    from that obtain k where k: "i = Suc k" "k < length decls" by (cases i) simp_all
    show ?thesis
      using k that by (simp add: created_offsets_nth[OF assms] take_Suc_conv_app_nth[of "Suc k"])
  qed
  have a': "(offsets v ! i = offsets v ! (i - 1)) = (?R ! i = 0)"
    if "0 < i" "i < length decls" for i
    using a[OF that] by auto
  have uo: "unat (offsets v ! j) = sum_list (take (Suc j) ?E)"
    if "j < length decls" and fit: "sum_list ?E < 2 ^ LENGTH('w)" for j
    using that by (simp add: created_offsets_nth[OF assms] unat_sum_take_resolved[OF fit])
  have b: "unat (offsets v ! i) = unat (offsets v ! (i - 1)) + ?E ! i"
    if "0 < i" "i < length decls" and fit: "sum_list ?E < 2 ^ LENGTH('w)" for i
  proof -
    from that obtain k where k: "i = Suc k" "k < length decls" by (cases i) simp_all
    have "sum_list (take (Suc (Suc k)) ?E) = sum_list (take (Suc k) ?E) + ?E ! Suc k"
      using k that by (simp add: take_Suc_conv_app_nth[of "Suc k"])
    then show ?thesis
      using k that by (simp add: uo)
  qed
  have c: "offsets v ! (i - 1) \<le> offsets v ! i
             \<and> unat (offsets v ! i) - unat (offsets v ! (i - 1)) = ?E ! i
             \<and> (offsets v ! (i - 1) < offsets v ! i) = (?E ! i \<noteq> 0)"
    if "0 < i" "i < length decls" and fit: "sum_list ?E < 2 ^ LENGTH('w)" for i
    using b[OF that] by (simp add: word_le_nat_alt word_less_nat_alt)
  have fitI: "scalar_total decls + array_total decls ls < 2 ^ LENGTH('w) \<Longrightarrow> sum_list ?E < 2 ^ LENGTH('w)"
    by (simp add: sum_exact_sizes[OF len] exact_total_def)
  show ?thesis
    using z a a' c fitI by blast
qed

theorem C7_offsets_differences_witness:
  "CreateInternal scenario_schema NoPtr [3] = Inr (scenario_view [4, 10, 18]) \<and>
   scalar_total scenario_schema + array_total scenario_schema [3] < 2 ^ 64 \<and>
   offsets (scenario_view [4, 10, 18]) ! 1 - offsets (scenario_view [4, 10, 18]) ! 0 = 6 \<and>
   offsets (scenario_view [4, 10, 18]) ! 0 < offsets (scenario_view [4, 10, 18]) ! 1"
proof -
  have c: "CreateInternal scenario_schema NoPtr [3] = Inr (scenario_view [4, 10, 18])"
    by (simp add: CreateInternal_eq scenario_schema_def scenario_view_def num_arrays_def
          member_list_def upt_rec)
  have f: "scalar_total scenario_schema + array_total scenario_schema [3] < 2 ^ LENGTH(64)"
    by (simp add: scenario_schema_def scalar_total_def array_total_def)
  have n: "length scenario_schema = 3"
    by (simp add: scenario_schema_def)
  have r: "resolved_sizes scenario_schema [3] ! 1 = 6" "exact_sizes scenario_schema [3] ! 1 = 6"
    by (simp_all add: scenario_schema_def)
  note t = C7_offsets_differences[OF c]
  note t1 = t[THEN conjunct2, THEN conjunct1, rule_format, of 1]
  note t2 = t[THEN conjunct2, THEN conjunct2, rule_format, OF f, of 1]
  have "offsets (scenario_view [4, 10, 18]) ! 1 - offsets (scenario_view [4, 10, 18]) ! 0 = 6"
    using t1 n r by simp
  moreover have "offsets (scenario_view [4, 10, 18]) ! 0 < offsets (scenario_view [4, 10, 18]) ! 1"
    using t2 n r by simp
  ultimately show ?thesis using c f by simp
qed

text \<open>
  The offsets are not strictly increasing for every length sequence: an array of length 0
  adds nothing, and its end offset equals its predecessor's.
\<close>

theorem C7_strict_counterexample:
  "CreateInternal scenario_schema NoPtr [0] = Inr (scenario_view [4, 4, 12]) \<and>
   offsets (scenario_view [4, 4, 12]) ! 1 = offsets (scenario_view [4, 4, 12]) ! 0 \<and>
   \<not> offsets (scenario_view [4, 4, 12]) ! 0 < offsets (scenario_view [4, 4, 12]) ! 1"
  by (simp add: CreateInternal_eq scenario_schema_def scenario_view_def num_arrays_def
        member_list_def upt_rec)

section \<open>The three variants\<close>

text \<open>The pointer is stored and takes no part in the layout.\<close>

lemma CreateInternal_ptr_only:
  "CreateInternal decls q ls = map_sum id (\<lambda>v. v\<lparr> ptr := q \<rparr>) (CreateInternal decls p ls)"
  by (simp add: CreateInternal_eq)

text \<open>
  Claim C6. When \<open>Create\<close> without a pointer succeeds on a class and a length sequence,
  \<open>Create\<close> with a mutable or a constant pointer succeeds on the same class and lengths,
  and \<open>name_offset\<close>, \<open>name_size\<close>, \<open>size_bytes\<close> and \<open>num_members\<close> return the same
  results on the results. On the pointerless varstruct the \<open>enable_if\<close> condition of every
  reader and writer is false: the pointer method, the scalar and the array readers and
  writers are all disabled.
\<close>

theorem C6_offsets_only_same_layout:
  assumes "Create_noptr decls ls = Inr v0"
  shows "(\<exists>v1. Create_mutable decls b ls = Inr v1
             \<and> (\<forall>f d. name_offset v0 f = name_offset v1 f \<and> name_size d v0 f = name_size d v1 f)
             \<and> size_bytes v0 = size_bytes v1 \<and> num_members v0 = num_members v1)
       \<and> (\<exists>v2. Create_const decls b ls = Inr v2
             \<and> (\<forall>f d. name_offset v0 f = name_offset v2 f \<and> name_size d v0 f = name_size d v2 f)
             \<and> size_bytes v0 = size_bytes v2 \<and> num_members v0 = num_members v2)
       \<and> \<not> read_enabled (ptr v0) \<and> \<not> write_enabled (ptr v0)
       \<and> (\<forall>bc d f i x mem.
             name_void_ptr (bounds_check_of bc) d v0 f i = Inl Disabled
           \<and> scalar_name d v0 f mem = Inl Disabled
           \<and> scalar_set_name d v0 f x mem = Inl Disabled
           \<and> array_name bc d v0 f i mem = Inl Disabled
           \<and> array_set_name bc d v0 f i x mem = Inl Disabled)"
proof -
  from assms have v0: "CreateInternal decls NoPtr ls = Inr v0" by (simp add: Create_noptr_def)
  have same: "CreateInternal decls q ls = Inr (v0\<lparr> ptr := q \<rparr>)" for q
    using CreateInternal_ptr_only[of decls q ls NoPtr] v0 by simp
  have acc: "name_offset (v0\<lparr> ptr := q \<rparr>) f = name_offset v0 f"
      "name_size d (v0\<lparr> ptr := q \<rparr>) f = name_size d v0 f"
      "size_bytes (v0\<lparr> ptr := q \<rparr>) = size_bytes v0"
      "num_members (v0\<lparr> ptr := q \<rparr>) = num_members v0" for q f d
    by (simp_all add: name_offset_def name_size_def array_name_size_def size_bytes_def
          num_members_def Let_def)
  have p0: "ptr v0 = NoPtr" by (rule created_ptr[OF v0])
  have dis: "\<not> read_enabled (ptr v0)" "\<not> write_enabled (ptr v0)"
    by (simp_all add: p0 read_enabled_def write_enabled_def)
  show ?thesis
    using same[of "VoidPtr b"] same[of "ConstVoidPtr b"] dis
    by (simp add: Create_mutable_def Create_const_def acc name_void_ptr_def p0 scalar_name_def
          scalar_set_name_def array_name_def array_set_name_def)
qed

text \<open>The scenario of the specification, without a pointer and at address 4096.\<close>

theorem C6_offsets_only_same_layout_witness:
  "Create_noptr scenario_schema [3] = Inr (scenario_view [4, 10, 18]) \<and>
   (\<exists>v1. Create_mutable scenario_schema 4096 [3] = Inr v1 \<and>
      map (name_offset v1) [0, 1, 2] = [0, 4, 10] \<and>
      map (\<lambda>f. name_size (scenario_schema ! f) v1 f) [0, 1, 2] = [4, 6, 8] \<and>
      size_bytes v1 = 18 \<and> num_members v1 = 3)"
proof -
  have c: "Create_noptr scenario_schema [3] = Inr (scenario_view [4, 10, 18])"
    by (simp add: Create_noptr_def CreateInternal_eq scenario_schema_def scenario_view_def
          num_arrays_def member_list_def upt_rec)
  have e: "map (name_offset (scenario_view [4, 10, 18])) [0, 1, 2] = [0, 4, 10]"
      "map (\<lambda>f. name_size (scenario_schema ! f) (scenario_view [4, 10, 18]) f) [0, 1, 2] = [4, 6, 8]"
      "size_bytes (scenario_view [4, 10, 18]) = 18" "num_members (scenario_view [4, 10, 18]) = 3"
    by (simp_all add: scenario_view_def scenario_schema_def name_offset_def name_size_def
          array_name_size_def scalar_name_size_def size_bytes_def num_members_def)
  from C6_offsets_only_same_layout[OF c, of 4096, THEN conjunct1]
  obtain v1 where v1: "Create_mutable scenario_schema 4096 [3] = Inr v1"
      "\<forall>f d. name_offset (scenario_view [4, 10, 18]) f = name_offset v1 f \<and>
         name_size d (scenario_view [4, 10, 18]) f = name_size d v1 f"
      "size_bytes (scenario_view [4, 10, 18]) = size_bytes v1"
      "num_members (scenario_view [4, 10, 18]) = num_members v1"
    by blast
  from v1(2) have r: "\<And>f d. name_offset v1 f = name_offset (scenario_view [4, 10, 18]) f"
      "\<And>f d. name_size d v1 f = name_size d (scenario_view [4, 10, 18]) f"
    by simp_all
  have "Create_mutable scenario_schema 4096 [3] = Inr v1 \<and>
      map (name_offset v1) [0, 1, 2] = [0, 4, 10] \<and>
      map (\<lambda>f. name_size (scenario_schema ! f) v1 f) [0, 1, 2] = [4, 6, 8] \<and>
      size_bytes v1 = 18 \<and> num_members v1 = 3"
    using e v1(1) by (simp add: r v1(3)[symmetric] v1(4)[symmetric])
  then have "\<exists>v1. Create_mutable scenario_schema 4096 [3] = Inr v1 \<and>
      map (name_offset v1) [0, 1, 2] = [0, 4, 10] \<and>
      map (\<lambda>f. name_size (scenario_schema ! f) v1 f) [0, 1, 2] = [4, 6, 8] \<and>
      size_bytes v1 = 18 \<and> num_members v1 = 3"
    by (rule exI)
  with c show ?thesis by (rule conjI)
qed

section \<open>Memory\<close>

lemma memcpy_from_nth:
  "k < n \<Longrightarrow> memcpy_from mem src n ! k = mem (src + of_nat k)"
proof (induction n arbitrary: src k)
  case 0
  then show ?case by simp
next
  case (Suc n)
  then show ?case by (cases k) (simp_all add: ac_simps)
qed

lemma length_memcpy_from [simp]: "length (memcpy_from mem src n) = n"
  by (induction n arbitrary: src) simp_all

lemma memcpy_to_frame:
  "(\<And>k. k < length bs \<Longrightarrow> a \<noteq> dst + of_nat k) \<Longrightarrow> memcpy_to mem dst bs a = mem a"
proof (induction bs arbitrary: mem dst)
  case Nil
  then show ?case by simp
next
  case (Cons x bs)
  have 0: "a \<noteq> dst" using Cons.prems[of 0] by simp
  have "a \<noteq> dst + 1 + of_nat k" if "k < length bs" for k
    using Cons.prems[of "Suc k"] that by (simp add: ac_simps)
  then have "memcpy_to (mem(dst := x)) (dst + 1) bs a = (mem(dst := x)) a"
    by (rule Cons.IH)
  with 0 show ?case by simp
qed

lemma of_nat_neq_0_small:
  assumes "0 < k" "k < 2 ^ LENGTH('w)"
  shows "(of_nat k :: ('w::len) word) \<noteq> 0"
proof
  assume "(of_nat k :: 'w word) = 0"
  then have "unat (of_nat k :: 'w word) = 0" by simp
  with assms show False by (simp add: unat_of_nat)
qed

lemma memcpy_to_readback:
  fixes dst :: "('w::len) word"
  assumes "length bs \<le> 2 ^ LENGTH('w)" "k < length bs"
  shows "memcpy_to mem dst bs (dst + of_nat k) = bs ! k"
  using assms
proof (induction bs arbitrary: mem dst k)
  case Nil
  then show ?case by simp
next
  case (Cons x bs)
  show ?case
  proof (cases k)
    case 0
    have "dst \<noteq> dst + 1 + of_nat j" if "j < length bs" for j
    proof -
      have "(of_nat (Suc j) :: 'w word) \<noteq> 0"
        using that Cons.prems(1) by (intro of_nat_neq_0_small) simp_all
      then show ?thesis by (simp add: ac_simps)
    qed
    then have "memcpy_to (mem(dst := x)) (dst + 1) bs dst = (mem(dst := x)) dst"
      by (intro memcpy_to_frame) simp
    with 0 show ?thesis by simp
  next
    case (Suc j)
    with Cons.prems have "memcpy_to (mem(dst := x)) (dst + 1) bs (dst + 1 + of_nat j) = bs ! j"
      by (intro Cons.IH) simp_all
    with Suc show ?thesis by (simp add: ac_simps)
  qed
qed

lemma memcpy_roundtrip:
  fixes dst :: "('w::len) word"
  assumes "length bs \<le> 2 ^ LENGTH('w)"
  shows "memcpy_from (memcpy_to mem dst bs) dst (length bs) = bs"
  by (rule nth_equalityI) (simp_all add: memcpy_from_nth memcpy_to_readback[OF assms])

lemma memcpy_from_cong:
  "(\<And>k. k < n \<Longrightarrow> mem' (src + of_nat k) = mem (src + of_nat k)) \<Longrightarrow>
   memcpy_from mem' src n = memcpy_from mem src n"
  by (rule nth_equalityI) (simp_all add: memcpy_from_nth)

section \<open>Bounds checking\<close>

text \<open>The pointer method on a varstruct with a pointer.\<close>

lemma name_void_ptr_enabled:
  "\<not> IsNoPtr (ptr v) \<Longrightarrow>
   name_void_ptr bounds_check d v f i =
     (if bounds_check \<and> \<not> i < name_size d v f div sizeof_decl_type d then Inl OutOfRange
      else Inr (char_ptr (ptr v) + name_offset v f + i * sizeof_decl_type d))"
  by (simp add: name_void_ptr_def)

text \<open>
  Claim C4. For an array field of a created varstruct whose pointer type enables the
  method, with \<open>n\<close> the field's \<open>name_size\<close> divided by \<open>sizeof(decl_type)\<close>: the reader
  and the writer fail with \<open>OutOfRange\<close> exactly when bounds checking is on and the index
  is below 0 (which no \<open>size_t\<close> is) or at least \<open>n\<close>. The failure is the whole result: the
  assertion is evaluated before \<open>memcpy\<close>, and the writer returns no memory. In every other
  case, and so for every index when bounds checking is off, the access is the \<open>memcpy\<close> at
  the base address plus \<open>name_offset\<close> plus index times \<open>sizeof(decl_type)\<close>.
\<close>

theorem C4_bounds_check_iff:
  assumes "CreateInternal decls p ls = Inr v" "f < length decls" "array (decls ! f)"
  shows "(read_enabled p \<longrightarrow>
            (array_name bc (decls ! f) v f i mem = Inl OutOfRange)
              = (bounds_check_of bc \<and>
                  (i < 0 \<or> name_size (decls ! f) v f div sizeof_decl_type (decls ! f) \<le> i))
          \<and> (\<not> (bounds_check_of bc \<and>
                  (i < 0 \<or> name_size (decls ! f) v f div sizeof_decl_type (decls ! f) \<le> i))
              \<longrightarrow> array_name bc (decls ! f) v f i mem =
                    Inr (memcpy_from mem
                          (char_ptr p + name_offset v f + i * sizeof_decl_type (decls ! f))
                          (unat (sizeof_decl_type (decls ! f))))))
       \<and> (write_enabled p \<longrightarrow>
            (array_set_name bc (decls ! f) v f i x mem = Inl OutOfRange)
              = (bounds_check_of bc \<and>
                  (i < 0 \<or> name_size (decls ! f) v f div sizeof_decl_type (decls ! f) \<le> i))
          \<and> (\<not> (bounds_check_of bc \<and>
                  (i < 0 \<or> name_size (decls ! f) v f div sizeof_decl_type (decls ! f) \<le> i))
              \<longrightarrow> array_set_name bc (decls ! f) v f i x mem =
                    Inr (memcpy_to mem
                          (char_ptr p + name_offset v f + i * sizeof_decl_type (decls ! f)) x)))"
proof -
  have p: "ptr v = p" by (rule created_ptr[OF assms(1)])
  show ?thesis
    by (auto simp: array_name_def array_set_name_def p read_enabled_def write_enabled_def
          name_void_ptr_enabled not_less)
qed

text \<open>The array of the scenario has 3 elements: index 3 is out of range, index 2 is not.\<close>

lemma scenario_created_at:
  "CreateInternal scenario_schema (VoidPtr b) [3] = Inr (scenario_view_at b [4, 10, 18])"
  by (simp add: CreateInternal_eq scenario_schema_def scenario_view_at_def num_arrays_def
        member_list_def upt_rec)

lemma scenario_field1:
  "array (scenario_schema ! 1)" "sizeof_decl_type (scenario_schema ! 1) = 2"
  "name_size (scenario_schema ! 1) (scenario_view_at b [4, 10, 18]) 1 = 6"
  "name_offset (scenario_view_at b [4, 10, 18]) 1 = 4"
  by (simp_all add: scenario_schema_def scenario_view_at_def name_size_def array_name_size_def
        name_offset_def)

theorem C4_bounds_check_iff_witness:
  "CreateInternal scenario_schema (VoidPtr 4096) [3] = Inr (scenario_view_at 4096 [4, 10, 18]) \<and>
   array_name Omitted (scenario_schema ! 1) (scenario_view_at 4096 [4, 10, 18]) 1 3 zero_memory
     = Inl OutOfRange \<and>
   array_name (Explicit False) (scenario_schema ! 1) (scenario_view_at 4096 [4, 10, 18]) 1 3 zero_memory
     = Inr [0, 0] \<and>
   array_name Omitted (scenario_schema ! 1) (scenario_view_at 4096 [4, 10, 18]) 1 2 zero_memory
     = Inr [0, 0] \<and>
   array_set_name (Explicit True) (scenario_schema ! 1) (scenario_view_at 4096 [4, 10, 18]) 1 3 [7, 7]
     zero_memory = Inl OutOfRange"
proof -
  have r: "read_enabled (VoidPtr (4096 :: 64 word))" "write_enabled (VoidPtr (4096 :: 64 word))"
    by (simp_all add: read_enabled_def write_enabled_def)
  have l: "(1::nat) < length scenario_schema" by (simp add: scenario_schema_def)
  have d: "(6 :: 64 word) div 2 = 3" by simp
  have m: "memcpy_from zero_memory a 2 = [0, 0]" for a
    by (simp add: zero_memory_def numeral_2_eq_2)
  note t = C4_bounds_check_iff[OF scenario_created_at[of 4096] l scenario_field1(1)]
  note tr = t[THEN conjunct1, rule_format, OF r(1), unfolded scenario_field1 d]
  note tw = t[THEN conjunct2, rule_format, OF r(2), unfolded scenario_field1 d]
  have "array_name Omitted (scenario_schema ! 1) (scenario_view_at 4096 [4, 10, 18]) 1 3 zero_memory
     = Inl OutOfRange"
    using tr[of Omitted 3 zero_memory, THEN conjunct1] by simp
  moreover have "array_name (Explicit False) (scenario_schema ! 1) (scenario_view_at 4096 [4, 10, 18]) 1 3 zero_memory
     = Inr [0, 0]"
    using tr[of "Explicit False" 3 zero_memory, THEN conjunct2] by (simp add: m)
  moreover have "array_name Omitted (scenario_schema ! 1) (scenario_view_at 4096 [4, 10, 18]) 1 2 zero_memory
     = Inr [0, 0]"
    using tr[of Omitted 2 zero_memory, THEN conjunct2] by (simp add: m)
  moreover have "array_set_name (Explicit True) (scenario_schema ! 1) (scenario_view_at 4096 [4, 10, 18]) 1 3 [7, 7]
     zero_memory = Inl OutOfRange"
    using tw[of "Explicit True" 3 "[7, 7]" zero_memory, THEN conjunct1] by simp
  ultimately show ?thesis using scenario_created_at[of 4096] by simp
qed

section \<open>Writing and reading back\<close>

text \<open>
  Claim C5. On a varstruct created with a mutable pointer, for a value of the field's type
  (a list of \<open>sizeof(decl_type)\<close> bytes): the scalar writer succeeds and the scalar reader
  then returns the value written; for an array field and an index below the element count,
  the array writer succeeds and the array reader at the same index then returns the value
  written, whether each of the two calls checks bounds or not.
\<close>

theorem C5_set_then_get:
  fixes decls :: "('w::len) field_decl list"
  assumes "CreateInternal decls (VoidPtr b) ls = Inr v" "f < length decls"
    and "length new_value = unat (sizeof_decl_type (decls ! f))"
  shows "(\<not> array (decls ! f) \<longrightarrow>
            (\<exists>mem'. scalar_set_name (decls ! f) v f new_value mem = Inr mem'
                \<and> scalar_name (decls ! f) v f mem' = Inr new_value))
       \<and> (array (decls ! f) \<and> i < name_size (decls ! f) v f div sizeof_decl_type (decls ! f) \<longrightarrow>
            (\<exists>mem'. array_set_name bc (decls ! f) v f i new_value mem = Inr mem'
                \<and> array_name bc' (decls ! f) v f i mem' = Inr new_value))"
proof -
  have p: "ptr v = VoidPtr b" by (rule created_ptr[OF assms(1)])
  have "length new_value < 2 ^ LENGTH('w)" unfolding assms(3) by (rule unsigned_less)
  then have len: "length new_value \<le> 2 ^ LENGTH('w)" by (rule less_imp_le)
  have rt: "memcpy_from (memcpy_to mem dst new_value) dst (unat (sizeof_decl_type (decls ! f)))
              = new_value" for dst :: "'w word"
    using memcpy_roundtrip[OF len, of mem dst] assms(3) by simp
  show ?thesis
    by (simp add: scalar_set_name_def scalar_name_def array_set_name_def array_name_def p
          read_enabled_def write_enabled_def name_void_ptr_enabled kBoundsCheck_def rt)
qed

text \<open>The 4-byte scalar and element 2 of the array of the scenario, at address 4096.\<close>

lemma scenario_field0:
  "\<not> array (scenario_schema ! 0)" "sizeof_decl_type (scenario_schema ! 0) = 4"
  by (simp_all add: scenario_schema_def)

theorem C5_set_then_get_witness:
  "CreateInternal scenario_schema (VoidPtr 4096) [3] = Inr (scenario_view_at 4096 [4, 10, 18]) \<and>
   (\<exists>mem'. scalar_set_name (scenario_schema ! 0) (scenario_view_at 4096 [4, 10, 18]) 0
              [1, 2, 3, 4] zero_memory = Inr mem' \<and>
           scalar_name (scenario_schema ! 0) (scenario_view_at 4096 [4, 10, 18]) 0 mem'
              = Inr [1, 2, 3, 4]) \<and>
   (\<exists>mem'. array_set_name Omitted (scenario_schema ! 1) (scenario_view_at 4096 [4, 10, 18]) 1 2
              [5, 6] zero_memory = Inr mem' \<and>
           array_name Omitted (scenario_schema ! 1) (scenario_view_at 4096 [4, 10, 18]) 1 2 mem'
              = Inr [5, 6])"
proof -
  have l: "(0::nat) < length scenario_schema" "(1::nat) < length scenario_schema"
    by (simp_all add: scenario_schema_def)
  have n: "length [1, 2, 3, 4 :: byte] = unat (sizeof_decl_type (scenario_schema ! 0))"
      "length [5, 6 :: byte] = unat (sizeof_decl_type (scenario_schema ! 1))"
    by (simp_all add: scenario_schema_def)
  have r: "(2 :: 64 word) < name_size (scenario_schema ! 1) (scenario_view_at 4096 [4, 10, 18]) 1
             div sizeof_decl_type (scenario_schema ! 1)"
    unfolding scenario_field1 by simp
  note s = C5_set_then_get[OF scenario_created_at[of 4096] l(1) n(1), THEN conjunct1, rule_format,
             OF scenario_field0(1), of zero_memory]
  note a = C5_set_then_get[OF scenario_created_at[of 4096] l(2) n(2), THEN conjunct2, rule_format,
             OF conjI[OF scenario_field1(1) r], of Omitted zero_memory Omitted]
  from scenario_created_at[of 4096] s a show ?thesis by (intro conjI)
qed

section \<open>Where the elements lie\<close>

lemma exact_sizes_scalar:
  "f < length decls \<Longrightarrow> \<not> array (decls ! f) \<Longrightarrow>
   exact_sizes decls ls ! f = unat (sizeof_decl_type (decls ! f))"
proof (induction decls arbitrary: ls f)
  case Nil
  then show ?case by simp
next
  case (Cons d ds)
  then show ?case by (cases f) simp_all
qed

lemma created_name_offset_nat:
  fixes decls :: "('w::len) field_decl list"
  assumes "CreateInternal decls p ls = Inr v" "sum_list (exact_sizes decls ls) < 2 ^ LENGTH('w)"
    and "g < length decls"
  shows "unat (name_offset v g) = sum_list (take g (exact_sizes decls ls))"
  using assms by (simp add: created_name_offset unat_sum_take_resolved)

lemma created_name_size_nat:
  fixes decls :: "('w::len) field_decl list"
  assumes "CreateInternal decls p ls = Inr v" "sum_list (exact_sizes decls ls) < 2 ^ LENGTH('w)"
    and "g < length decls"
  shows "unat (name_size (decls ! g) v g) = exact_sizes decls ls ! g"
  using assms by (simp add: created_name_size unat_resolved_nth)

lemma sum_take_Suc_nat:
  "k < length xs \<Longrightarrow> sum_list (take (Suc k) xs) = sum_list (take k xs) + (xs ! k :: nat)"
  by (simp add: take_Suc_conv_app_nth)

lemma field_end_le_total:
  "g < length (xs :: nat list) \<Longrightarrow> sum_list (take g xs) + xs ! g \<le> sum_list xs"
  using sum_list_take_le[of "Suc g" xs] by (simp add: sum_take_Suc_nat)

lemma field_end_le_start:
  assumes "g < f" "f \<le> length (xs :: nat list)"
  shows "sum_list (take g xs) + xs ! g \<le> sum_list (take f xs)"
proof -
  have "sum_list (take g (take f xs)) + take f xs ! g \<le> sum_list (take f xs)"
    using assms by (intro field_end_le_total) simp
  with assms show ?thesis by (simp add: min_def)
qed

lemma element_end:
  "k < e \<Longrightarrow> Suc a * e \<le> c \<Longrightarrow> a * e + k < (c :: nat)"
  by simp

text \<open>An element in range ends inside its field.\<close>

lemma element_in_field:
  fixes decls :: "('w::len) field_decl list"
  assumes c: "CreateInternal decls p ls = Inr v" and fit: "sum_list (exact_sizes decls ls) < 2 ^ LENGTH('w)"
    and g: "g < length decls" and r: "field_in_range decls v g j"
  shows "Suc (unat j) * unat (sizeof_decl_type (decls ! g)) \<le> exact_sizes decls ls ! g"
proof (cases "array (decls ! g)")
  case True
  let ?es = "unat (sizeof_decl_type (decls ! g))"
  from r True have "j < name_size (decls ! g) v g div sizeof_decl_type (decls ! g)"
    by (simp add: field_in_range_def)
  then have "unat j < exact_sizes decls ls ! g div ?es"
    by (simp add: word_less_nat_alt unat_div created_name_size_nat[OF c fit g])
  then have "Suc (unat j) \<le> exact_sizes decls ls ! g div ?es" by simp
  then have "Suc (unat j) * ?es \<le> (exact_sizes decls ls ! g div ?es) * ?es"
    by (rule mult_le_mono1)
  also have "\<dots> \<le> exact_sizes decls ls ! g" by simp
  finally show ?thesis .
next
  case False
  with r have "j = 0" by (simp add: field_in_range_def)
  with False g show ?thesis by (simp add: exact_sizes_scalar)
qed

text \<open>The address of byte \<open>k\<close> of an element in range, as a number.\<close>

lemma element_address_nat:
  fixes decls :: "('w::len) field_decl list"
  assumes c: "CreateInternal decls p ls = Inr v"
    and buf: "unat (char_ptr p) + sum_list (exact_sizes decls ls) < 2 ^ LENGTH('w)"
    and g: "g < length decls" and r: "field_in_range decls v g j"
    and k: "k < unat (sizeof_decl_type (decls ! g))"
  shows "unat (element_address decls v g j + of_nat k) =
           unat (char_ptr p) + sum_list (take g (exact_sizes decls ls))
             + unat j * unat (sizeof_decl_type (decls ! g)) + k"
proof -
  let ?E = "exact_sizes decls ls" and ?es = "unat (sizeof_decl_type (decls ! g))"
  from buf have fit: "sum_list ?E < 2 ^ LENGTH('w)" by simp
  have "unat j * ?es + k < ?E ! g"
    using k element_in_field[OF c fit g r] by (rule element_end)
  moreover have "sum_list (take g ?E) + ?E ! g \<le> sum_list ?E"
    using g by (intro field_end_le_total) simp
  ultimately have small:
    "unat (char_ptr p) + sum_list (take g ?E) + unat j * ?es + k < 2 ^ LENGTH('w)"
    using buf by simp
  have "of_nat (unat (char_ptr p) + sum_list (take g ?E) + unat j * ?es + k) =
          element_address decls v g j + of_nat k"
    by (simp add: element_address_def created_ptr[OF c] created_name_offset[OF c g]
          sum_take_resolved)
  then have "unat (element_address decls v g j + of_nat k) =
          unat (of_nat (unat (char_ptr p) + sum_list (take g ?E) + unat j * ?es + k) :: 'w word)"
    by simp
  also have "\<dots> = unat (char_ptr p) + sum_list (take g ?E) + unat j * ?es + k"
    using small by (simp only: unat_of_nat mod_less take_bit_nat_eq_self_iff)
  finally show ?thesis .
qed

text \<open>Bytes of two different elements in range have different addresses.\<close>

lemma element_bytes_disjoint:
  fixes decls :: "('w::len) field_decl list"
  assumes c: "CreateInternal decls p ls = Inr v"
    and buf: "unat (char_ptr p) + sum_list (exact_sizes decls ls) < 2 ^ LENGTH('w)"
    and f: "f < length decls" "field_in_range decls v f i" "k < unat (sizeof_decl_type (decls ! f))"
    and g: "g < length decls" "field_in_range decls v g j" "k' < unat (sizeof_decl_type (decls ! g))"
    and ne: "g \<noteq> f \<or> j \<noteq> i"
  shows "element_address decls v g j + of_nat k' \<noteq> element_address decls v f i + of_nat k"
proof -
  let ?E = "exact_sizes decls ls"
  let ?S = "\<lambda>h. sum_list (take h ?E)"
  let ?es = "\<lambda>h. unat (sizeof_decl_type (decls ! h))"
  from buf have fit: "sum_list ?E < 2 ^ LENGTH('w)" by simp
  note ef = element_in_field[OF c fit f(1) f(2)]
  note eg = element_in_field[OF c fit g(1) g(2)]
  have "?S g + unat j * ?es g + k' \<noteq> ?S f + unat i * ?es f + k"
  proof (cases "g = f")
    case True
    with ne have "unat j \<noteq> unat i" by (simp add: word_unat_eq_iff)
    then consider "unat j < unat i" | "unat i < unat j" by linarith
    then show ?thesis
    proof cases
      case 1
      then have "Suc (unat j) * ?es f \<le> unat i * ?es f" by (intro mult_le_mono1) simp
      with g(3) True have "unat j * ?es f + k' < unat i * ?es f" by (intro element_end) simp_all
      with True show ?thesis by simp
    next
      case 2
      then have "Suc (unat i) * ?es f \<le> unat j * ?es f" by (intro mult_le_mono1) simp
      with f(3) have "unat i * ?es f + k < unat j * ?es f" by (intro element_end) simp_all
      with True show ?thesis by simp
    qed
  next
    case False
    then consider "g < f" | "f < g" by linarith
    then show ?thesis
    proof cases
      case 1
      have "unat j * ?es g + k' < ?E ! g" using g(3) eg by (rule element_end)
      moreover have "?S g + ?E ! g \<le> ?S f" using 1 f(1) by (intro field_end_le_start) simp_all
      ultimately show ?thesis by simp
    next
      case 2
      have "unat i * ?es f + k < ?E ! f" using f(3) ef by (rule element_end)
      moreover have "?S f + ?E ! f \<le> ?S g" using 2 g(1) by (intro field_end_le_start) simp_all
      ultimately show ?thesis by simp
    qed
  qed
  then have "unat (element_address decls v g j + of_nat k') \<noteq>
             unat (element_address decls v f i + of_nat k)"
    by (simp add: element_address_nat[OF c buf f] element_address_nat[OF c buf g])
  then show ?thesis by auto
qed

section \<open>What a write leaves unchanged\<close>

lemma field_set_in_range:
  assumes "ptr v = VoidPtr b" "field_in_range decls v f i"
  shows "field_set bc decls v f i x mem = Inr (memcpy_to mem (element_address decls v f i) x)"
  using assms
  by (auto simp: field_set_def field_in_range_def array_set_name_def scalar_set_name_def
        write_enabled_def name_void_ptr_enabled kBoundsCheck_def element_address_def)

lemma field_get_in_range:
  assumes "ptr v = VoidPtr b" "field_in_range decls v g j"
  shows "field_get bc decls v g j mem =
           Inr (memcpy_from mem (element_address decls v g j) (unat (sizeof_decl_type (decls ! g))))"
  using assms
  by (auto simp: field_get_def field_in_range_def array_name_def scalar_name_def
        read_enabled_def name_void_ptr_enabled kBoundsCheck_def element_address_def)

text \<open>
  Claim C9, as the code has it. On a varstruct created with a mutable pointer \<open>b\<close>,
  writing a value of the field's type to a scalar field, or to an element in range of an
  array field, succeeds and changes no byte outside the \<open>sizeof(decl_type)\<close> bytes at
  \<open>b + name_offset + i * sizeof\<close>. When the layout did not overflow and lies in the address
  space (\<open>b\<close> plus the exact total size is below \<open>2 ^ w\<close>), every read of another field, or
  of another element in range of the same array, returns after the write what it returned
  before.
\<close>

theorem C9_write_frame:
  fixes decls :: "('w::len) field_decl list"
  assumes c: "CreateInternal decls (VoidPtr b) ls = Inr v"
    and f: "f < length decls" "field_in_range decls v f i"
    and x: "length new_value = unat (sizeof_decl_type (decls ! f))"
  shows "\<exists>mem'. field_set bc decls v f i new_value mem = Inr mem'
          \<and> (\<forall>a. (\<forall>k < unat (sizeof_decl_type (decls ! f)).
                     a \<noteq> b + name_offset v f + i * sizeof_decl_type (decls ! f) + of_nat k)
                 \<longrightarrow> mem' a = mem a)
          \<and> (unat b + (scalar_total decls + array_total decls ls) < 2 ^ LENGTH('w) \<longrightarrow>
               (\<forall>g j bc'. g < length decls \<and> field_in_range decls v g j \<and> (g \<noteq> f \<or> j \<noteq> i)
                   \<longrightarrow> field_get bc' decls v g j mem' = field_get bc' decls v g j mem))"
proof -
  let ?dst = "element_address decls v f i"
  let ?mem' = "memcpy_to mem ?dst new_value"
  have p: "ptr v = VoidPtr b" by (rule created_ptr[OF c])
  have dst: "?dst = b + name_offset v f + i * sizeof_decl_type (decls ! f)"
    by (simp add: element_address_def p)
  have set: "field_set bc decls v f i new_value mem = Inr ?mem'"
    by (rule field_set_in_range[OF p f(2)])
  have frame: "?mem' a = mem a"
    if "\<forall>k < unat (sizeof_decl_type (decls ! f)). a \<noteq> ?dst + of_nat k" for a
    using that by (intro memcpy_to_frame) (simp add: x)
  have others: "field_get bc' decls v g j ?mem' = field_get bc' decls v g j mem"
    if buf: "unat b + (scalar_total decls + array_total decls ls) < 2 ^ LENGTH('w)"
      and g: "g < length decls" "field_in_range decls v g j" "g \<noteq> f \<or> j \<noteq> i"
    for g j bc'
  proof -
    have buf': "unat (char_ptr (VoidPtr b)) + sum_list (exact_sizes decls ls) < 2 ^ LENGTH('w)"
      using buf by (simp add: sum_exact_sizes[OF created_lengths[OF c]] exact_total_def)
    have "?mem' (element_address decls v g j + of_nat k') = mem (element_address decls v g j + of_nat k')"
      if k': "k' < unat (sizeof_decl_type (decls ! g))" for k'
    proof (rule frame, intro allI impI)
      fix k assume k: "k < unat (sizeof_decl_type (decls ! f))"
      show "element_address decls v g j + of_nat k' \<noteq> ?dst + of_nat k"
        by (rule element_bytes_disjoint[OF c buf' f k g(1) g(2) k' g(3)])
    qed
    then have "memcpy_from ?mem' (element_address decls v g j) (unat (sizeof_decl_type (decls ! g)))
             = memcpy_from mem (element_address decls v g j) (unat (sizeof_decl_type (decls ! g)))"
      by (rule memcpy_from_cong)
    then show ?thesis by (simp add: field_get_in_range[OF p g(2)])
  qed
  show ?thesis
    using set frame others unfolding dst by blast
qed

text \<open>
  Writing element 2 of the array of the scenario at address 4096 into a zeroed memory
  leaves byte 4095, both scalars and element 1 zero.
\<close>

lemma scenario_in_range:
  "field_in_range scenario_schema (scenario_view_at b [4, 10, 18]) 0 0"
  "field_in_range scenario_schema (scenario_view_at b [4, 10, 18]) 1 1"
  "field_in_range scenario_schema (scenario_view_at b [4, 10, 18]) 1 2"
  "field_in_range scenario_schema (scenario_view_at b [4, 10, 18]) 2 0"
  by (simp_all add: field_in_range_def scenario_schema_def scenario_view_at_def name_size_def
        array_name_size_def)

lemma scenario_get_zero:
  "field_get bc scenario_schema (scenario_view_at b [4, 10, 18]) 0 0 zero_memory = Inr [0, 0, 0, 0]"
  "field_get bc scenario_schema (scenario_view_at b [4, 10, 18]) 1 1 zero_memory = Inr [0, 0]"
  "field_get bc scenario_schema (scenario_view_at b [4, 10, 18]) 2 0 zero_memory
     = Inr [0, 0, 0, 0, 0, 0, 0, 0]"
proof -
  have m: "memcpy_from zero_memory a 2 = [0, 0]" "memcpy_from zero_memory a 4 = [0, 0, 0, 0]"
    "memcpy_from zero_memory a 8 = [0, 0, 0, 0, 0, 0, 0, 0]" for a
    by (simp_all add: zero_memory_def eval_nat_numeral)
  have p: "ptr (scenario_view_at b [4, 10, 18]) = VoidPtr b" by (simp add: scenario_view_at_def)
  have s: "unat (sizeof_decl_type (scenario_schema ! 0)) = 4"
    "unat (sizeof_decl_type (scenario_schema ! 1)) = 2"
    "unat (sizeof_decl_type (scenario_schema ! 2)) = 8"
    by (simp_all add: scenario_schema_def)
  show "field_get bc scenario_schema (scenario_view_at b [4, 10, 18]) 0 0 zero_memory = Inr [0, 0, 0, 0]"
    unfolding field_get_in_range[OF p scenario_in_range(1)] s m by (rule refl)
  show "field_get bc scenario_schema (scenario_view_at b [4, 10, 18]) 1 1 zero_memory = Inr [0, 0]"
    unfolding field_get_in_range[OF p scenario_in_range(2)] s m by (rule refl)
  show "field_get bc scenario_schema (scenario_view_at b [4, 10, 18]) 2 0 zero_memory
     = Inr [0, 0, 0, 0, 0, 0, 0, 0]"
    unfolding field_get_in_range[OF p scenario_in_range(4)] s m by (rule refl)
qed

theorem C9_write_frame_witness:
  "CreateInternal scenario_schema (VoidPtr 4096) [3] = Inr (scenario_view_at 4096 [4, 10, 18]) \<and>
   unat (4096 :: 64 word) + (scalar_total scenario_schema + array_total scenario_schema [3]) < 2 ^ 64 \<and>
   (\<exists>mem'. field_set Omitted scenario_schema (scenario_view_at 4096 [4, 10, 18]) 1 2 [5, 6]
              zero_memory = Inr mem' \<and>
      mem' 4095 = 0 \<and>
      field_get Omitted scenario_schema (scenario_view_at 4096 [4, 10, 18]) 0 0 mem'
        = Inr [0, 0, 0, 0] \<and>
      field_get Omitted scenario_schema (scenario_view_at 4096 [4, 10, 18]) 1 1 mem' = Inr [0, 0] \<and>
      field_get Omitted scenario_schema (scenario_view_at 4096 [4, 10, 18]) 2 0 mem'
        = Inr [0, 0, 0, 0, 0, 0, 0, 0])"
proof -
  let ?v = "scenario_view_at 4096 [4, 10, 18]"
  have l: "(1::nat) < length scenario_schema" "length scenario_schema = 3"
    by (simp_all add: scenario_schema_def)
  have n: "length [5, 6 :: byte] = unat (sizeof_decl_type (scenario_schema ! 1))"
    by (simp add: scenario_schema_def)
  have buf: "unat (4096 :: 64 word) + (scalar_total scenario_schema + array_total scenario_schema [3])
               < 2 ^ LENGTH(64)"
    by (simp add: scenario_schema_def scalar_total_def array_total_def)
  from C9_write_frame[OF scenario_created_at[of 4096] l(1) scenario_in_range(3) n, of Omitted zero_memory]
  obtain mem' where set: "field_set Omitted scenario_schema ?v 1 2 [5, 6] zero_memory = Inr mem'"
    and frame: "\<forall>a. (\<forall>k < unat (sizeof_decl_type (scenario_schema ! 1)).
                     a \<noteq> 4096 + name_offset ?v 1 + 2 * sizeof_decl_type (scenario_schema ! 1) + of_nat k)
                 \<longrightarrow> mem' a = zero_memory a"
    and others: "unat (4096 :: 64 word) + (scalar_total scenario_schema + array_total scenario_schema [3])
               < 2 ^ LENGTH(64) \<longrightarrow>
               (\<forall>g j bc'. g < length scenario_schema \<and> field_in_range scenario_schema ?v g j
                    \<and> (g \<noteq> 1 \<or> j \<noteq> 2)
                   \<longrightarrow> field_get bc' scenario_schema ?v g j mem'
                       = field_get bc' scenario_schema ?v g j zero_memory)"
    by blast
  note o = others[rule_format, OF buf]
  have "mem' 4095 = zero_memory 4095"
  proof (rule frame[rule_format, unfolded scenario_field1])
    fix k :: nat
    assume "k < unat (2 :: 64 word)"
    then have "k = 0 \<or> k = 1" by auto
    then show "(4095 :: 64 word) \<noteq> 4096 + 4 + 2 * 2 + of_nat k" by auto
  qed
  then have a: "mem' 4095 = 0" by (simp add: zero_memory_def)
  have l': "(0::nat) < length scenario_schema" "(2::nat) < length scenario_schema"
    by (simp_all add: l(2))
  have "field_get Omitted scenario_schema ?v 0 0 mem'
          = field_get Omitted scenario_schema ?v 0 0 zero_memory"
    by (rule o) (intro conjI l' scenario_in_range, simp)
  then have g0: "field_get Omitted scenario_schema ?v 0 0 mem' = Inr [0, 0, 0, 0]"
    by (simp only: scenario_get_zero)
  have "field_get Omitted scenario_schema ?v 1 1 mem'
          = field_get Omitted scenario_schema ?v 1 1 zero_memory"
    by (rule o) (intro conjI l scenario_in_range, simp)
  then have g1: "field_get Omitted scenario_schema ?v 1 1 mem' = Inr [0, 0]"
    by (simp only: scenario_get_zero)
  have "field_get Omitted scenario_schema ?v 2 0 mem'
          = field_get Omitted scenario_schema ?v 2 0 zero_memory"
    by (rule o) (intro conjI l' scenario_in_range, simp)
  then have g2: "field_get Omitted scenario_schema ?v 2 0 mem' = Inr [0, 0, 0, 0, 0, 0, 0, 0]"
    by (simp only: scenario_get_zero)
  from set a g0 g1 g2 have "\<exists>mem'. field_set Omitted scenario_schema ?v 1 2 [5, 6]
              zero_memory = Inr mem' \<and>
      mem' 4095 = 0 \<and>
      field_get Omitted scenario_schema ?v 0 0 mem' = Inr [0, 0, 0, 0] \<and>
      field_get Omitted scenario_schema ?v 1 1 mem' = Inr [0, 0] \<and>
      field_get Omitted scenario_schema ?v 2 0 mem' = Inr [0, 0, 0, 0, 0, 0, 0, 0]"
    by (intro exI[of _ mem'] conjI)
  with scenario_created_at[of 4096] buf show ?thesis by simp
qed

text \<open>
  Without the proviso the reads of other fields are not preserved. With \<open>2 ^ 63 - 1\<close>
  two-byte elements the offsets wrap to 4, 2 and 10 and \<open>size_bytes\<close> is 10: the third
  field starts at offset 2, inside the first. In a buffer of 10 bytes at address 4096,
  writing the third field copies 8 bytes to 4098 and changes what the first field reads
  at 4096.
\<close>

lemma scenario_created_wrapped:
  "CreateInternal scenario_schema (VoidPtr b) [2 ^ 63 - 1] = Inr (scenario_view_at b [4, 2, 10])"
  by (simp add: CreateInternal_eq scenario_schema_def scenario_view_at_def num_arrays_def
        member_list_def upt_rec)

lemma scenario_wrapped_scalars:
  "field_in_range scenario_schema (scenario_view_at b [4, 2, 10]) 0 0"
  "field_in_range scenario_schema (scenario_view_at b [4, 2, 10]) 2 0"
  "element_address scenario_schema (scenario_view_at b [4, 2, 10]) 0 0 = b"
  "element_address scenario_schema (scenario_view_at b [4, 2, 10]) 2 0 = b + 2"
  "unat (sizeof_decl_type (scenario_schema ! 0)) = 4"
  by (simp_all add: field_in_range_def element_address_def scenario_schema_def
        scenario_view_at_def name_offset_def)

lemma memcpy_from_4: "memcpy_from mem a 4 = [mem a, mem (a + 1), mem (a + 2), mem (a + 3)]"
proof -
  have n: "(4 :: nat) = Suc (Suc (Suc (Suc 0)))" by simp
  show ?thesis unfolding n by (simp add: add.assoc)
qed

theorem C9_overlap_counterexample:
  "CreateInternal scenario_schema (VoidPtr 4096) [2 ^ 63 - 1]
     = Inr (scenario_view_at 4096 [4, 2, 10]) \<and>
   size_bytes (scenario_view_at 4096 [4, 2, 10]) = 10 \<and>
   field_in_range scenario_schema (scenario_view_at 4096 [4, 2, 10]) 2 0 \<and>
   field_in_range scenario_schema (scenario_view_at 4096 [4, 2, 10]) 0 0 \<and>
   field_set Omitted scenario_schema (scenario_view_at 4096 [4, 2, 10]) 2 0
       [1, 2, 3, 4, 5, 6, 7, 8] zero_memory
     = Inr (memcpy_to zero_memory 4098 [1, 2, 3, 4, 5, 6, 7, 8]) \<and>
   field_get Omitted scenario_schema (scenario_view_at 4096 [4, 2, 10]) 0 0 zero_memory
     = Inr [0, 0, 0, 0] \<and>
   field_get Omitted scenario_schema (scenario_view_at 4096 [4, 2, 10]) 0 0
       (memcpy_to zero_memory 4098 [1, 2, 3, 4, 5, 6, 7, 8])
     = Inr [0, 0, 1, 2]"
proof -
  let ?v = "scenario_view_at 4096 [4, 2, 10]"
  have p: "ptr ?v = VoidPtr 4096" by (simp add: scenario_view_at_def)
  have sz: "size_bytes ?v = 10" by (simp add: size_bytes_def scenario_view_at_def)
  have set: "field_set Omitted scenario_schema ?v 2 0 [1, 2, 3, 4, 5, 6, 7, 8] zero_memory
     = Inr (memcpy_to zero_memory 4098 [1, 2, 3, 4, 5, 6, 7, 8])"
    unfolding field_set_in_range[OF p scenario_wrapped_scalars(2)] scenario_wrapped_scalars
    by simp
  have get0: "field_get Omitted scenario_schema ?v 0 0 zero_memory = Inr [0, 0, 0, 0]"
    unfolding field_get_in_range[OF p scenario_wrapped_scalars(1)] scenario_wrapped_scalars
      memcpy_from_4
    by (simp add: zero_memory_def)
  have get1: "field_get Omitted scenario_schema ?v 0 0
       (memcpy_to zero_memory 4098 [1, 2, 3, 4, 5, 6, 7, 8]) = Inr [0, 0, 1, 2]"
    unfolding field_get_in_range[OF p scenario_wrapped_scalars(1)] scenario_wrapped_scalars
      memcpy_from_4
    by (simp add: zero_memory_def)
  from scenario_created_wrapped[of 4096] sz scenario_wrapped_scalars(2)[of 4096]
    scenario_wrapped_scalars(1)[of 4096] set get0 get1
  show ?thesis by (intro conjI)
qed

section \<open>The bounds-checking policy of the accessors\<close>

lemma memcpy_from_zero_memory: "memcpy_from zero_memory a n = replicate n 0"
  by (induction n arbitrary: a) (simp_all add: zero_memory_def)

lemma replicate_bytes:
  "replicate (unat (2 :: 64 word)) (0 :: byte) = [0, 0]"
  "replicate (unat (4 :: 64 word)) (0 :: byte) = [0, 0, 0, 0]"
proof -
  have n: "(2 :: nat) = Suc (Suc 0)" "(4 :: nat) = Suc (Suc (Suc (Suc 0)))"
    by simp_all
  have u: "unat (2 :: 64 word) = 2" "unat (4 :: 64 word) = 4"
    by simp_all
  show "replicate (unat (2 :: 64 word)) (0 :: byte) = [0, 0]"
    unfolding u n(1) by simp
  show "replicate (unat (4 :: 64 word)) (0 :: byte) = [0, 0, 0, 0]"
    unfolding u n(2) by simp
qed

text \<open>
  Claim C8, as the code has it. On a created varstruct with a pointer: the array reader and
  writer take the policy as a template argument of the call site, and a call site that
  omits it is bounds-checked (the default is \<open>true\<close>); with the argument given, the reader
  and, where the pointer type enables it, the writer fail with \<open>OutOfRange\<close> exactly when
  the argument is \<open>true\<close> and the index is not below the element count. The scalar reader
  and writer take no such argument: they go through
  the pointer method with \<open>kBoundsCheck = false\<close> and are one \<open>memcpy\<close> at the field's
  start. For a scalar the check would change nothing: at index 0, with \<open>sizeof\<close> not 0, the
  checked and the unchecked pointer method agree.
\<close>

theorem C8_bounds_check_policy:
  assumes "CreateInternal decls p ls = Inr v" "f < length decls" "read_enabled p"
  shows "(array (decls ! f) \<longrightarrow>
            array_name Omitted (decls ! f) v f i mem = array_name (Explicit True) (decls ! f) v f i mem
          \<and> array_set_name Omitted (decls ! f) v f i x mem
              = array_set_name (Explicit True) (decls ! f) v f i x mem
          \<and> (array_name (Explicit b) (decls ! f) v f i mem = Inl OutOfRange)
              = (b \<and> name_size (decls ! f) v f div sizeof_decl_type (decls ! f) \<le> i)
          \<and> (write_enabled p \<longrightarrow>
               (array_set_name (Explicit b) (decls ! f) v f i x mem = Inl OutOfRange)
                 = (b \<and> name_size (decls ! f) v f div sizeof_decl_type (decls ! f) \<le> i)))
       \<and> (\<not> array (decls ! f) \<longrightarrow>
            scalar_name (decls ! f) v f mem =
              Inr (memcpy_from mem (char_ptr p + name_offset v f)
                     (unat (sizeof_decl_type (decls ! f))))
          \<and> (write_enabled p \<longrightarrow>
               scalar_set_name (decls ! f) v f x mem =
                 Inr (memcpy_to mem (char_ptr p + name_offset v f) x))
          \<and> (sizeof_decl_type (decls ! f) \<noteq> 0 \<longrightarrow>
               name_void_ptr True (decls ! f) v f 0 = name_void_ptr kBoundsCheck (decls ! f) v f 0))"
proof -
  have p: "ptr v = p" by (rule created_ptr[OF assms(1)])
  from assms(3) have e: "\<not> IsNoPtr (ptr v)" by (simp add: p read_enabled_def)
  have one: "0 < d div d" if "d \<noteq> 0" for d :: "'a::len word"
    using that by (simp add: div_word_self)
  show ?thesis
    using assms(3) e one[of "sizeof_decl_type (decls ! f)"]
    by (auto simp: array_name_def array_set_name_def scalar_name_def scalar_set_name_def p
          name_void_ptr_enabled kBoundsCheck_def not_less name_size_def scalar_name_size_def
          write_enabled_def)
qed

theorem C8_bounds_check_policy_witness:
  "CreateInternal scenario_schema (VoidPtr 4096) [3] = Inr (scenario_view_at 4096 [4, 10, 18]) \<and>
   read_enabled (VoidPtr (4096 :: 64 word)) \<and>
   array_name Omitted (scenario_schema ! 1) (scenario_view_at 4096 [4, 10, 18]) 1 5 zero_memory
     = array_name (Explicit True) (scenario_schema ! 1) (scenario_view_at 4096 [4, 10, 18]) 1 5
         zero_memory \<and>
   (array_set_name (Explicit True) (scenario_schema ! 1) (scenario_view_at 4096 [4, 10, 18]) 1 5
      [7, 7] zero_memory = Inl OutOfRange) \<and>
   (array_set_name (Explicit False) (scenario_schema ! 1) (scenario_view_at 4096 [4, 10, 18]) 1 5
      [7, 7] zero_memory \<noteq> Inl OutOfRange) \<and>
   scalar_name (scenario_schema ! 0) (scenario_view_at 4096 [4, 10, 18]) 0 zero_memory
     = Inr [0, 0, 0, 0]"
proof -
  have r: "read_enabled (VoidPtr (4096 :: 64 word))" by (simp add: read_enabled_def)
  have w: "write_enabled (VoidPtr (4096 :: 64 word))" by (simp add: write_enabled_def)
  have d: "(6 :: 64 word) div 2 \<le> 5" by simp
  have l: "(0::nat) < length scenario_schema" "(1::nat) < length scenario_schema"
    by (simp_all add: scenario_schema_def)
  have m: "memcpy_from zero_memory a (unat (sizeof_decl_type (scenario_schema ! 0))) = [0, 0, 0, 0]"
    for a
    unfolding scenario_field0 memcpy_from_zero_memory by (rule replicate_bytes)
  note a = C8_bounds_check_policy[OF scenario_created_at[of 4096] l(2) r, THEN conjunct1,
             rule_format, OF scenario_field1(1), THEN conjunct1, of 5 zero_memory]
  note s = C8_bounds_check_policy[OF scenario_created_at[of 4096] l(1) r, THEN conjunct2,
             rule_format, OF scenario_field0(1), THEN conjunct1, of zero_memory, unfolded m]
  note wr = C8_bounds_check_policy[OF scenario_created_at[of 4096] l(2) r, THEN conjunct1,
             rule_format, OF scenario_field1(1), THEN conjunct2, THEN conjunct2, THEN conjunct2,
             rule_format, OF w, of _ 5 "[7, 7]" zero_memory, unfolded scenario_field1]
  have wt: "array_set_name (Explicit True) (scenario_schema ! 1) (scenario_view_at 4096 [4, 10, 18])
              1 5 [7, 7] zero_memory = Inl OutOfRange"
    using wr[of True] d by simp
  have wf: "array_set_name (Explicit False) (scenario_schema ! 1) (scenario_view_at 4096 [4, 10, 18])
              1 5 [7, 7] zero_memory \<noteq> Inl OutOfRange"
    using wr[of False] by simp
  from scenario_created_at[of 4096] r a wt wf s show ?thesis by (intro conjI)
qed

text \<open>
  The policy is not an explicit flag at every call site: an array read that names no
  policy is checked and fails at index 3 of 3 elements, where the same read with the
  policy \<open>false\<close> returns bytes; and the scalar accessors' fixed policy is the opposite of
  the arrays' default.
\<close>

theorem C8_implicit_default_counterexample:
  "bounds_check_of Omitted = True \<and> kBoundsCheck = False \<and>
   array_name Omitted (scenario_schema ! 1) (scenario_view_at 4096 [4, 10, 18]) 1 3 zero_memory
     = Inl OutOfRange \<and>
   array_name (Explicit False) (scenario_schema ! 1) (scenario_view_at 4096 [4, 10, 18]) 1 3
     zero_memory = Inr [0, 0]"
proof -
  have e: "\<not> IsNoPtr (ptr (scenario_view_at 4096 [4, 10, 18]))"
    by (simp add: scenario_view_at_def)
  have r: "read_enabled (ptr (scenario_view_at 4096 [4, 10, 18]))"
    by (simp add: scenario_view_at_def read_enabled_def)
  have d: "\<not> (3 :: 64 word) < 6 div 2" by simp
  show ?thesis
    unfolding array_name_def name_void_ptr_enabled[OF e] scenario_field1 memcpy_from_zero_memory
      replicate_bytes
    using r d by (simp add: kBoundsCheck_def)
qed

end
